theory Spec2Isabelle
  imports Main
begin

chapter \<open>The embedding\<close>

text \<open>
  The repository is one script, \<^verbatim>\<open>index.js\<close>, in two versions: the year-range
  version (suffix \<open>A\<close> below; \<^verbatim>\<open>node index.js 1998 2020\<close>) and the single-year version
  (suffix \<open>B\<close>; \<^verbatim>\<open>node index.js 2020\<close>). \<^verbatim>\<open>download\<close> and \<^verbatim>\<open>ingest\<close> are the same in
  both; \<^verbatim>\<open>parseHtml\<close>, \<^verbatim>\<open>store\<close> and \<^verbatim>\<open>main\<close> differ and are embedded twice.

  The libraries the script calls (undici, jsdom, luxon, pg, readline, \<^verbatim>\<open>JSON\<close>) are not part
  of the repository. Each is modelled by what it hands back to the script: an HTTP
  response, the elements a selector query finds, a day number, the rows of a table.
  The script runs sequentially (every call is awaited), so effects are modelled by
  explicit state passing. \<^verbatim>\<open>console.info\<close> lines are left out; \<^verbatim>\<open>console.error\<close>
  lines are kept, without their arguments.
\<close>

section \<open>JavaScript values\<close>

text \<open>
  A JavaScript string is a sequence of UTF-16 code units; a code unit is a number
  below 65536. \<open>str\<close> turns a literal of this file into code units.
\<close>

type_synonym jsstring = "nat list"

definition str :: "string \<Rightarrow> jsstring" where
  "str s = map of_char s"

datatype jsval = Undefined | Null | Num int | Str jsstring

datatype error =
    TypeError          \<comment> \<open>a property read on \<^verbatim>\<open>null\<close>\<close>
  | ReferenceError     \<comment> \<open>an undeclared variable is read\<close>
  | UnexpectedHTML     \<comment> \<open>\<^verbatim>\<open>new Error('Unexpected HTML')\<close>\<close>
  | NoSuchFile         \<comment> \<open>\<^verbatim>\<open>ENOENT\<close> from \<^verbatim>\<open>JSDOM.fromFile\<close>\<close>
  | SyntaxError        \<comment> \<open>\<^verbatim>\<open>JSON.parse\<close> rejects its input\<close>
  | DatabaseError      \<comment> \<open>a query is rejected by the database\<close>

datatype log = ConsoleError string

text \<open>
  \<^verbatim>\<open>String.prototype.trim\<close> strips white space and line terminators from both
  ends: TAB, LF, VT, FF, CR, SP, NBSP, U+1680, U+2000 to U+200A, U+2028, U+2029,
  U+202F, U+205F, U+3000 and U+FEFF.
\<close>

definition isWhiteSpace :: "nat \<Rightarrow> bool" where
  "isWhiteSpace c \<longleftrightarrow>
     c \<in> {9, 10, 11, 12, 13, 32, 160, 5760, 8232, 8233, 8239, 8287, 12288, 65279}
     \<or> (8192 \<le> c \<and> c \<le> 8202)"

definition trim :: "jsstring \<Rightarrow> jsstring" where
  "trim s = rev (dropWhile isWhiteSpace (rev (dropWhile isWhiteSpace s)))"

text \<open>The decimal text of an integer (\<^verbatim>\<open>Number.prototype.toString\<close> on an integer).\<close>

fun digits :: "nat \<Rightarrow> jsstring" where
  "digits n = (if n < 10 then [48 + n] else digits (n div 10) @ [48 + n mod 10])"

declare digits.simps [simp del]

definition numberToString :: "int \<Rightarrow> jsstring" where
  "numberToString n = (if n < 0 then 45 # digits (nat (- n)) else digits (nat n))"

section \<open>Files\<close>

text \<open>
  The script names its files after a date or a year:
  \<^verbatim>\<open>html/${date.toISODate()}.html\<close> and \<^verbatim>\<open>jsonl/${year}.jsonl\<close>. Both names are
  injective in the date and the year, so a file name is modelled by its kind and
  its key; a date is the number of days since 1970-01-01.
\<close>

datatype path = HtmlFile int | JsonlFile int

type_synonym fs = "path \<rightharpoonup> jsstring"

section \<open>Fetcher: \<^verbatim>\<open>download\<close>\<close>

text \<open>
  What \<^verbatim>\<open>request\<close> resolves to: the status code, \<^verbatim>\<open>headers['content-type']\<close>
  (\<open>None\<close> when the header is absent) and the chunks of the body.
\<close>

record response =
  statusCode :: int
  contentType :: "jsstring option"
  body :: "jsstring list"

record download_result =
  returned :: jsval
  dl_logged :: "log list"
  dl_files :: fs

text \<open>
  \<^verbatim>\<open>fs.createWriteStream(htmlFileName)\<close> creates the file (or empties it) and every
  chunk is appended; the function then ends without a \<^verbatim>\<open>return\<close>, which is
  \<^verbatim>\<open>undefined\<close>.
\<close>

definition download :: "response \<Rightarrow> path \<Rightarrow> fs \<Rightarrow> download_result" where
  "download resp htmlFileName files =
     (if statusCode resp \<noteq> 200 then
        \<lparr>returned = Null, dl_logged = [ConsoleError ''Status code is not 200!''], dl_files = files\<rparr>
      else if contentType resp \<noteq> Some (str ''text/html; charset=UTF-8'') then
        \<lparr>returned = Null, dl_logged = [ConsoleError ''Content type is unexpected!''], dl_files = files\<rparr>
      else
        \<lparr>returned = Undefined, dl_logged = [],
         dl_files = files(htmlFileName \<mapsto> concat (body resp))\<rparr>)"

section \<open>Extractor: \<^verbatim>\<open>parseHtml\<close>\<close>

text \<open>
  jsdom is modelled by the answers to the script's queries. A page is the list
  \<^verbatim>\<open>querySelectorAll('div.o-chart-results-list-row-container')\<close> returns, in document
  order; a row is the result of the three \<^verbatim>\<open>row.querySelector\<close> calls, each \<open>None\<close>
  when no element matches (\<^verbatim>\<open>null\<close>). An element has a first child or none; a node has
  a \<^verbatim>\<open>nodeValue\<close>, which is \<^verbatim>\<open>null\<close> unless the node is a text node (or a comment).
\<close>

datatype node = Node (nodeValue: "jsstring option")

datatype element = Element (firstChild: "node option")

record row =
  rankQuery :: "element option"
    \<comment> \<open>\<^verbatim>\<open>'li.o-chart-results-list__item:first-child > span'\<close>, version B only\<close>
  titleQuery :: "element option"
    \<comment> \<open>\<^verbatim>\<open>'h3#title-of-a-story'\<close>\<close>
  artistQuery :: "element option"
    \<comment> \<open>\<^verbatim>\<open>'h3#title-of-a-story + span'\<close>\<close>

type_synonym page = "row list"

text \<open>
  \<^verbatim>\<open>q?.firstChild.nodeValue.trim()\<close>: the optional chain stops at a \<^verbatim>\<open>null\<close> query
  result and gives \<^verbatim>\<open>undefined\<close>; the two later property reads are not guarded and
  throw on \<^verbatim>\<open>null\<close>.
\<close>

fun textOf :: "element option \<Rightarrow> error + jsval" where
  "textOf None = Inr Undefined"
| "textOf (Some el) =
     (case firstChild el of
        None \<Rightarrow> Inl TypeError
      | Some n \<Rightarrow>
          (case nodeValue n of
             None \<Rightarrow> Inl TypeError
           | Some s \<Rightarrow> Inr (Str (trim s))))"

record entry =
  position :: jsval
  artist :: jsval
  title :: jsval

text \<open>
  A run of the generator: the entries it yielded, in order, what it logged, and the
  exception that ended it, if any. The consumer writes each entry as it is yielded,
  so the entries before an exception have been yielded.
\<close>

record run =
  yielded :: "entry list"
  logged :: "log list"
  raised :: "error option"

definition finish :: run where
  "finish = \<lparr>yielded = [], logged = [], raised = None\<rparr>"

definition throw :: "error \<Rightarrow> run" where
  "throw e = \<lparr>yielded = [], logged = [], raised = Some e\<rparr>"

definition yield :: "entry \<Rightarrow> run \<Rightarrow> run" where
  "yield e rest = rest\<lparr>yielded := e # yielded rest\<rparr>"

text \<open>
  Version A. The loop \<^verbatim>\<open>for (let i = 0; i < rows.length; ++i)\<close> from index \<open>i\<close> on.
  Inside the guard, \<^verbatim>\<open>console.error('Unexpected HTML!', position, title, artist)\<close>
  reads \<^verbatim>\<open>position\<close>, which version A declares nowhere: the read throws a
  \<^verbatim>\<open>ReferenceError\<close> before anything is logged.
\<close>

fun rowsLoopA :: "nat \<Rightarrow> row list \<Rightarrow> run" where
  "rowsLoopA i [] = finish"
| "rowsLoopA i (r # rs) =
     (case textOf (titleQuery r) of
        Inl e \<Rightarrow> throw e
      | Inr t \<Rightarrow>
          (case textOf (artistQuery r) of
             Inl e \<Rightarrow> throw e
           | Inr a \<Rightarrow>
               if t = Null \<or> a = Null then throw ReferenceError
               else yield \<lparr>position = Num (int i + 1), artist = a, title = t\<rparr>
                          (rowsLoopA (i + 1) rs)))"

definition parseHtmlA :: "page \<Rightarrow> run" where
  "parseHtmlA rows =
     (if length rows \<noteq> 100 then
        \<lparr>yielded = [], logged = [ConsoleError ''Entries are not 100!''], raised = None\<rparr>
      else rowsLoopA 0 rows)"

text \<open>Version B: no count check; the position is the text of the rank label.\<close>

fun rowsLoopB :: "row list \<Rightarrow> run" where
  "rowsLoopB [] = finish"
| "rowsLoopB (r # rs) =
     (case textOf (rankQuery r) of
        Inl e \<Rightarrow> throw e
      | Inr p \<Rightarrow>
          (case textOf (titleQuery r) of
             Inl e \<Rightarrow> throw e
           | Inr t \<Rightarrow>
               (case textOf (artistQuery r) of
                  Inl e \<Rightarrow> throw e
                | Inr a \<Rightarrow>
                    if p = Null \<or> t = Null \<or> a = Null then
                      \<lparr>yielded = [], logged = [ConsoleError ''Unexpected HTML''],
                       raised = Some UnexpectedHTML\<rparr>
                    else yield \<lparr>position = p, artist = a, title = t\<rparr> (rowsLoopB rs))))"

definition parseHtmlB :: "page \<Rightarrow> run" where
  "parseHtmlB rows = rowsLoopB rows"

section \<open>\<^verbatim>\<open>JSON.stringify\<close> and \<^verbatim>\<open>JSON.parse\<close>\<close>

text \<open>
  \<^verbatim>\<open>ingest\<close> writes \<^verbatim>\<open>JSON.stringify([weekYear, weekNumber, position, artist, title])\<close>
  and \<^verbatim>\<open>store\<close> reads each line back with \<^verbatim>\<open>JSON.parse\<close>. Both are modelled on code
  units, after ECMAScript: \<open>quoteUnits\<close> is QuoteJSONString (the short escapes, \<^verbatim>\<open>\u00XX\<close>
  below U+0020, an escape for a surrogate that has no partner, everything else as
  it is); in an array \<^verbatim>\<open>undefined\<close> is written as \<^verbatim>\<open>null\<close>. A number is an integer here
  (week-year, week number and position are), written in decimal.
\<close>

definition hexDigit :: "nat \<Rightarrow> nat" where
  "hexDigit n = (if n < 10 then 48 + n else 87 + n)"

definition unicodeEscape :: "nat \<Rightarrow> jsstring" where
  "unicodeEscape c =
     [92, 117, hexDigit (c div 4096 mod 16), hexDigit (c div 256 mod 16),
      hexDigit (c div 16 mod 16), hexDigit (c mod 16)]"

definition isLeadSurrogate :: "nat \<Rightarrow> bool" where
  "isLeadSurrogate c \<longleftrightarrow> 55296 \<le> c \<and> c \<le> 56319"

definition isTrailSurrogate :: "nat \<Rightarrow> bool" where
  "isTrailSurrogate c \<longleftrightarrow> 56320 \<le> c \<and> c \<le> 57343"

definition quoteUnit :: "nat \<Rightarrow> jsstring" where
  "quoteUnit c =
     (if c = 8 then [92, 98]
      else if c = 9 then [92, 116]
      else if c = 10 then [92, 110]
      else if c = 12 then [92, 102]
      else if c = 13 then [92, 114]
      else if c = 34 then [92, 34]
      else if c = 92 then [92, 92]
      else if c < 32 then unicodeEscape c
      else [c])"

fun quoteUnits :: "jsstring \<Rightarrow> jsstring" where
  "quoteUnits [] = []"
| "quoteUnits [c] =
     (if isLeadSurrogate c \<or> isTrailSurrogate c then unicodeEscape c else quoteUnit c)"
| "quoteUnits (c # d # cs) =
     (if isLeadSurrogate c then
        (if isTrailSurrogate d then c # d # quoteUnits cs
         else unicodeEscape c @ quoteUnits (d # cs))
      else if isTrailSurrogate c then unicodeEscape c @ quoteUnits (d # cs)
      else quoteUnit c @ quoteUnits (d # cs))"

definition quoteJSONString :: "jsstring \<Rightarrow> jsstring" where
  "quoteJSONString s = 34 # quoteUnits s @ [34]"

fun serializeJSONProperty :: "jsval \<Rightarrow> jsstring" where
  "serializeJSONProperty Undefined = str ''null''"
| "serializeJSONProperty Null = str ''null''"
| "serializeJSONProperty (Num n) = numberToString n"
| "serializeJSONProperty (Str s) = quoteJSONString s"

fun joinComma :: "jsstring list \<Rightarrow> jsstring" where
  "joinComma [] = []"
| "joinComma [x] = x"
| "joinComma (x # y # xs) = x @ 44 # joinComma (y # xs)"

definition JSON_stringify :: "jsval list \<Rightarrow> jsstring" where
  "JSON_stringify vs = 91 # joinComma (map serializeJSONProperty vs) @ [93]"

text \<open>
  The parser covers the texts a record file can hold: an array, at top level, of
  integers, strings and \<^verbatim>\<open>null\<close>, with JSON white space between tokens and the escapes
  of the JSON grammar inside strings. A text \<^verbatim>\<open>JSON.parse\<close> rejects is a
  \<open>SyntaxError\<close>. A text it accepts that is not such an array (a fraction, an
  exponent, a boolean, a nested array or object, a value that is no array) is outside
  the model and is reported as \<open>SyntaxError\<close> too; \<^verbatim>\<open>ingest\<close> never writes one.
\<close>

definition isJSONWhiteSpace :: "nat \<Rightarrow> bool" where
  "isJSONWhiteSpace c \<longleftrightarrow> c = 9 \<or> c = 10 \<or> c = 13 \<or> c = 32"

definition skipWs :: "jsstring \<Rightarrow> jsstring" where
  "skipWs s = dropWhile isJSONWhiteSpace s"

definition hexVal :: "nat \<Rightarrow> nat option" where
  "hexVal h =
     (if 48 \<le> h \<and> h \<le> 57 then Some (h - 48)
      else if 97 \<le> h \<and> h \<le> 102 then Some (h - 87)
      else if 65 \<le> h \<and> h \<le> 70 then Some (h - 55)
      else None)"

definition unescape :: "nat \<Rightarrow> nat option" where
  "unescape e =
     (if e = 34 then Some 34
      else if e = 92 then Some 92
      else if e = 47 then Some 47
      else if e = 98 then Some 8
      else if e = 102 then Some 12
      else if e = 110 then Some 10
      else if e = 114 then Some 13
      else if e = 116 then Some 9
      else None)"

definition hex4 :: "jsstring \<Rightarrow> (nat \<times> jsstring) option" where
  "hex4 s =
     (case s of
        h1 # h2 # h3 # h4 # r \<Rightarrow>
          (case (hexVal h1, hexVal h2, hexVal h3, hexVal h4) of
             (Some a, Some b, Some c, Some d) \<Rightarrow> Some (((a * 16 + b) * 16 + c) * 16 + d, r)
           | _ \<Rightarrow> None)
      | _ \<Rightarrow> None)"

definition consUnit :: "nat \<Rightarrow> (jsstring \<times> jsstring) option \<Rightarrow> (jsstring \<times> jsstring) option" where
  "consUnit c r = map_option (\<lambda>(s, rest). (c # s, rest)) r"

fun parseChars :: "jsstring \<Rightarrow> (jsstring \<times> jsstring) option" where
  "parseChars [] = None"
| "parseChars (c # cs) =
     (if c = 34 then Some ([], cs)
      else if c = 92 then
        (case cs of
           [] \<Rightarrow> None
         | e # es \<Rightarrow>
             if e = 117 then
               (case es of
                  h1 # h2 # h3 # h4 # r \<Rightarrow>
                    (case hex4 [h1, h2, h3, h4] of
                       None \<Rightarrow> None
                     | Some (u, _) \<Rightarrow> consUnit u (parseChars r))
                | _ \<Rightarrow> None)
             else
               (case unescape e of
                  None \<Rightarrow> None
                | Some u \<Rightarrow> consUnit u (parseChars es)))
      else if c < 32 then None
      else consUnit c (parseChars cs))"

definition isDigit :: "nat \<Rightarrow> bool" where
  "isDigit c \<longleftrightarrow> 48 \<le> c \<and> c \<le> 57"

definition digitsValue :: "jsstring \<Rightarrow> nat" where
  "digitsValue ds = foldl (\<lambda>a d. 10 * a + (d - 48)) 0 ds"

definition parseInt :: "jsstring \<Rightarrow> (nat \<times> jsstring) option" where
  "parseInt s =
     (case s of
        [] \<Rightarrow> None
      | c # cs \<Rightarrow>
          if c = 48 then Some (0, cs)
          else if isDigit c then Some (digitsValue (takeWhile isDigit s), dropWhile isDigit s)
          else None)"

definition parseValue :: "jsstring \<Rightarrow> (jsval \<times> jsstring) option" where
  "parseValue s =
     (case s of
        [] \<Rightarrow> None
      | c # cs \<Rightarrow>
          if c = 34 then map_option (\<lambda>(t, r). (Str t, r)) (parseChars cs)
          else if c = 110 then
            (if take 3 cs = str ''ull'' then Some (Null, drop 3 cs) else None)
          else if c = 45 then map_option (\<lambda>(n, r). (Num (- int n), r)) (parseInt cs)
          else map_option (\<lambda>(n, r). (Num (int n), r)) (parseInt s))"

text \<open>
  The elements of an array, after the opening bracket. Every value takes at least
  one code unit, which is why the recursion ends.
\<close>

lemma parseChars_length: "parseChars s = Some (t, r) \<Longrightarrow> length r < length s"
proof (induction s arbitrary: t r rule: parseChars.induct)
  case 1
  then show ?case by simp
next
  case (2 c cs)
  show ?case
  proof (cases "c = 34")
    case True
    with "2.prems" show ?thesis by simp
  next
    case n34: False
    show ?thesis
    proof (cases "c = 92")
      case True
      show ?thesis
      proof (cases cs)
        case Nil
        with "2.prems" True show ?thesis by simp
      next
        case (Cons e es)
        show ?thesis
        proof (cases "e = 117")
          case u: True
          from "2.prems" True Cons u obtain h1 h2 h3 h4 r0 where es: "es = h1 # h2 # h3 # h4 # r0"
            by (auto split: list.splits)
          with "2.prems" True Cons u obtain x y t' where
            "hex4 [h1, h2, h3, h4] = Some (x, y)" "parseChars r0 = Some (t', r)"
            by (auto simp: consUnit_def split: option.splits)
          with "2.IH"(1) [OF n34 True Cons u es] have "length r < length r0" by blast
          with es Cons show ?thesis by simp
        next
          case nu: False
          from "2.prems" True Cons nu obtain x t' where
            "unescape e = Some x" "parseChars es = Some (t', r)"
            by (auto simp: consUnit_def split: option.splits)
          with "2.IH"(2) [OF n34 True Cons nu] have "length r < length es" by blast
          with Cons show ?thesis by simp
        qed
      qed
    next
      case False
      with "2.prems" n34 obtain t' where lt: "\<not> c < 32" and "parseChars cs = Some (t', r)"
        by (auto simp: consUnit_def split: if_splits)
      with "2.IH"(3) [OF n34 False lt] have "length r < length cs" by blast
      then show ?thesis by simp
    qed
  qed
qed

lemma parseInt_length: "parseInt s = Some (n, r) \<Longrightarrow> length r < length s"
  by (cases s) (auto simp: parseInt_def length_dropWhile_le less_Suc_eq_le split: if_splits)

lemma parseValue_length: "parseValue s = Some (v, r) \<Longrightarrow> length r < length s"
  by (cases s)
    (auto simp: parseValue_def less_Suc_eq split: if_splits
      dest!: parseChars_length parseInt_length)

lemma skipWs_length: "length (skipWs s) \<le> length s"
  by (simp add: skipWs_def length_dropWhile_le)

function parseElements :: "jsstring \<Rightarrow> (jsval list \<times> jsstring) option" where
  "parseElements s =
     (case parseValue (skipWs s) of
        None \<Rightarrow> None
      | Some (v, r) \<Rightarrow>
          (case skipWs r of
             [] \<Rightarrow> None
           | c # r' \<Rightarrow>
               if c = 44 then map_option (\<lambda>(vs, rest). (v # vs, rest)) (parseElements r')
               else if c = 93 then Some ([v], r')
               else None))"
  by pat_completeness auto
termination
proof (relation "measure length")
  show "wf (measure length)" by simp
next
  fix s :: jsstring and x2 v r l c r'
  assume "parseValue (skipWs s) = Some x2" "(v, r) = x2" "skipWs r = c # r'"
  then have "length r < length (skipWs s)" "length (c # r') \<le> length r"
    using parseValue_length [of "skipWs s" v r] skipWs_length [of r] by auto
  then show "(r', s) \<in> measure length"
    using skipWs_length [of s] by simp
qed
declare parseElements.simps [simp del]

definition JSON_parse :: "jsstring \<Rightarrow> error + jsval list" where
  "JSON_parse text =
     (case skipWs text of
        [] \<Rightarrow> Inl SyntaxError
      | c # r \<Rightarrow>
          if c \<noteq> 91 then Inl SyntaxError
          else
            (case skipWs r of
               [] \<Rightarrow> Inl SyntaxError
             | d # r' \<Rightarrow>
                 if d = 93 then (if skipWs r' = [] then Inr [] else Inl SyntaxError)
                 else
                   (case parseElements r of
                      None \<Rightarrow> Inl SyntaxError
                    | Some (vs, rest) \<Rightarrow>
                        if skipWs rest = [] then Inr vs else Inl SyntaxError)))"


section \<open>readline\<close>

text \<open>
  \<^verbatim>\<open>readline.createInterface(stream, { crlfDelay: Infinity })\<close> yields the lines of the
  file: a line ends at LF, at CR LF or at CR, and a last line without an end is
  yielded when it is not empty. \<open>readLines cur rest\<close> has read \<open>cur\<close> of the current line.
\<close>

fun readLines :: "jsstring \<Rightarrow> jsstring \<Rightarrow> jsstring list" where
  "readLines cur [] = (if cur = [] then [] else [cur])"
| "readLines cur (c # cs) =
     (if c = 10 then cur # readLines [] cs
      else if c = 13 then
        (case cs of
           [] \<Rightarrow> [cur]
         | d # ds \<Rightarrow> if d = 10 then cur # readLines [] ds else cur # readLines [] cs)
      else readLines (cur @ [c]) cs)"

section \<open>Database\<close>

text \<open>
  The table \<^verbatim>\<open>raw_chart\<close> and the transaction of the one connection \<^verbatim>\<open>store\<close> opens:
  \<open>table\<close> holds the committed rows, \<open>pending\<close> the rows inserted since \<^verbatim>\<open>BEGIN\<close>
  (\<open>None\<close> when no transaction is open). A row is the list of parameters as pg sends
  them: text, or \<open>None\<close> for SQL \<^verbatim>\<open>NULL\<close>. Which rows the database takes is not in the
  script: \<open>accepts visible r\<close> says whether an \<^verbatim>\<open>INSERT\<close> of \<open>r\<close> succeeds when the
  rows \<open>visible\<close> are in the table. \<^verbatim>\<open>BEGIN\<close>, \<^verbatim>\<open>COMMIT\<close> and \<^verbatim>\<open>ROLLBACK\<close> succeed.
\<close>

type_synonym dbrow = "jsstring option list"

record database =
  table :: "dbrow list"
  pending :: "dbrow list option"

definition queryBegin :: "database \<Rightarrow> database" where
  "queryBegin d = d\<lparr>pending := Some []\<rparr>"

definition queryInsert :: "(dbrow list \<Rightarrow> dbrow \<Rightarrow> bool) \<Rightarrow> dbrow \<Rightarrow> database \<Rightarrow> error + database" where
  "queryInsert accepts r d =
     (case pending d of
        None \<Rightarrow>
          if accepts (table d) r then Inr (d\<lparr>table := table d @ [r]\<rparr>) else Inl DatabaseError
      | Some p \<Rightarrow>
          if accepts (table d @ p) r then Inr (d\<lparr>pending := Some (p @ [r])\<rparr>)
          else Inl DatabaseError)"

definition queryCommit :: "database \<Rightarrow> database" where
  "queryCommit d =
     (case pending d of None \<Rightarrow> d | Some p \<Rightarrow> d\<lparr>table := table d @ p, pending := None\<rparr>)"

definition queryRollback :: "database \<Rightarrow> database" where
  "queryRollback d = d\<lparr>pending := None\<rparr>"

fun prepareValue :: "jsval \<Rightarrow> jsstring option" where
  "prepareValue Undefined = None"
| "prepareValue Null = None"
| "prepareValue (Num n) = Some (numberToString n)"
| "prepareValue (Str s) = Some s"

section \<open>Loader: \<^verbatim>\<open>store\<close>\<close>

text \<open>
  \<^verbatim>\<open>values[i]\<close> is \<^verbatim>\<open>undefined\<close> past the end of the array and \<^verbatim>\<open>values[2] = "87"\<close>
  would lengthen a shorter array. Version A corrects one record before the insert
  (the text \<^verbatim>\<open>"87"\<close>, not the number); version B inserts what it parsed.
\<close>

definition at :: "jsval list \<Rightarrow> nat \<Rightarrow> jsval" where
  "at values i = (if i < length values then values ! i else Undefined)"

definition setAt :: "jsval list \<Rightarrow> nat \<Rightarrow> jsval \<Rightarrow> jsval list" where
  "setAt values i v =
     (if i < length values then values[i := v]
      else values @ replicate (i - length values) Undefined @ [v])"

definition correctionA :: "jsval list \<Rightarrow> jsval list" where
  "correctionA values =
     (if at values 0 = Num 1984 \<and> at values 1 = Num 7
         \<and> at values 4 = Str (str ''Remember The Nights'')
      then setAt values 2 (Str (str ''87''))
      else values)"

definition correctionB :: "jsval list \<Rightarrow> jsval list" where
  "correctionB values = values"

text \<open>
  The loop \<^verbatim>\<open>for await (const line of rl)\<close> inside \<^verbatim>\<open>try\<close>: the first exception ends it,
  and the database is returned as it was at that moment.
\<close>

fun insertLines ::
  "(jsval list \<Rightarrow> jsval list) \<Rightarrow> (dbrow list \<Rightarrow> dbrow \<Rightarrow> bool) \<Rightarrow> jsstring list \<Rightarrow> database
     \<Rightarrow> error option \<times> database" where
  "insertLines correction accepts [] d = (None, d)"
| "insertLines correction accepts (line # rest) d =
     (case JSON_parse line of
        Inl e \<Rightarrow> (Some e, d)
      | Inr values \<Rightarrow>
          (case queryInsert accepts (map prepareValue (correction values)) d of
             Inl e \<Rightarrow> (Some e, d)
           | Inr d' \<Rightarrow> insertLines correction accepts rest d'))"

record store_result =
  st_raised :: "error option"
  st_logged :: "log list"
  st_db :: database

text \<open>
  The two \<^verbatim>\<open>store\<close> functions are the same text but for the correction, so they are
  one definition with the correction as a parameter. A missing file is logged and
  nothing is raised; otherwise \<^verbatim>\<open>BEGIN\<close>, the loop, then \<^verbatim>\<open>COMMIT\<close>, or in the
  \<^verbatim>\<open>catch\<close> block \<^verbatim>\<open>ROLLBACK\<close> and \<^verbatim>\<open>throw err\<close>.
\<close>

definition storeWith ::
  "(jsval list \<Rightarrow> jsval list) \<Rightarrow> (dbrow list \<Rightarrow> dbrow \<Rightarrow> bool) \<Rightarrow> fs \<Rightarrow> path \<Rightarrow> database
     \<Rightarrow> store_result" where
  "storeWith correction accepts fsys jsonlFileName d =
     (case fsys jsonlFileName of
        None \<Rightarrow>
          \<lparr>st_raised = None, st_logged = [ConsoleError ''JSONL file does not exist!''], st_db = d\<rparr>
      | Some content \<Rightarrow>
          (case insertLines correction accepts (readLines [] content) (queryBegin d) of
             (None, d') \<Rightarrow> \<lparr>st_raised = None, st_logged = [], st_db = queryCommit d'\<rparr>
           | (Some err, d') \<Rightarrow> \<lparr>st_raised = Some err, st_logged = [], st_db = queryRollback d'\<rparr>))"

definition storeA :: "(dbrow list \<Rightarrow> dbrow \<Rightarrow> bool) \<Rightarrow> fs \<Rightarrow> path \<Rightarrow> database \<Rightarrow> store_result" where
  "storeA = storeWith correctionA"

definition storeB :: "(dbrow list \<Rightarrow> dbrow \<Rightarrow> bool) \<Rightarrow> fs \<Rightarrow> path \<Rightarrow> database \<Rightarrow> store_result" where
  "storeB = storeWith correctionB"


section \<open>Dates: luxon\<close>

text \<open>
  Every \<^verbatim>\<open>DateTime\<close> of the script is a midnight, \<^verbatim>\<open>T00:00Z\<close>, so a date is modelled by
  its day number, the days since 1970-01-01; \<^verbatim>\<open>+date\<close> is 86400000 times the day
  number, and \<^verbatim>\<open>date.plus({ weeks: 1 })\<close> adds 7. The model takes the zone of the
  process to be UTC: luxon shows a \<^verbatim>\<open>DateTime\<close> parsed from a \<^verbatim>\<open>Z\<close> string in the
  local zone, and in a zone behind UTC the same instants are Friday evenings.

  \<open>dayFromYear\<close> is DayFromYear of ECMAScript, the day number of 1 January, and
  \<open>yearFromDay\<close> is the year a day falls in: the largest year whose first day is not
  after it, found by walking down and up from an estimate.
\<close>

definition isLeapYear :: "int \<Rightarrow> bool" where
  "isLeapYear y \<longleftrightarrow> y mod 4 = 0 \<and> (y mod 100 \<noteq> 0 \<or> y mod 400 = 0)"

definition daysInYear :: "int \<Rightarrow> int" where
  "daysInYear y = (if isLeapYear y then 366 else 365)"

definition dayFromYear :: "int \<Rightarrow> int" where
  "dayFromYear y =
     365 * (y - 1970) + (y - 1969) div 4 - (y - 1901) div 100 + (y - 1601) div 400"

lemma div_step:
  fixes a :: int
  assumes "1 < k"
  shows "(a + 1) div k = a div k + (if (a + 1) mod k = 0 then 1 else 0)"
proof -
  have r: "0 \<le> a mod k" "a mod k < k" using assms by simp_all
  have one: "1 div k = 0" "1 mod k = 1" using assms by simp_all
  have e: "(a + 1) div k = a div k + (a mod k + 1) div k"
    using div_add1_eq [of a 1 k] one by simp
  have m: "(a + 1) mod k = (a mod k + 1) mod k"
    by (simp add: mod_simps)
  show ?thesis
  proof (cases "a mod k + 1 = k")
    case True
    then show ?thesis using e m assms by simp
  next
    case False
    then have lt: "a mod k + 1 < k" "0 \<le> a mod k + 1" "a mod k + 1 \<noteq> 0" using r by simp_all
    have "(a mod k + 1) div k = 0" "(a mod k + 1) mod k = a mod k + 1"
      using lt by simp_all
    then show ?thesis using e m lt by simp
  qed
qed

lemma leap_aux:
  "(l400 \<Longrightarrow> l100) \<Longrightarrow> (l100 \<Longrightarrow> l4) \<Longrightarrow>
   365 * (y + 1 - 1970) + (a + (if l4 then 1 else 0)) - (b + (if l100 then 1 else 0))
     + (c + (if l400 then 1 else 0)) =
   365 * (y - 1970) + a - b + c + (if l4 \<and> (\<not> l100 \<or> l400) then 366 else (365::int))"
  by (cases l4; cases l100; cases l400) simp_all

lemma dayFromYear_Suc: "dayFromYear (y + 1) = dayFromYear y + daysInYear y"
proof -
  have 4: "(y + 1 - 1969) div 4 = (y - 1969) div 4 + (if y mod 4 = 0 then 1 else 0)"
  proof -
    have "(y - 1968) mod 4 = y mod 4"
      using mod_diff_eq [of y 4 1968] by simp
    then show ?thesis using div_step [of 4 "y - 1969"] by (simp add: algebra_simps)
  qed
  have 100: "(y + 1 - 1901) div 100 = (y - 1901) div 100 + (if y mod 100 = 0 then 1 else 0)"
  proof -
    have "(y - 1900) mod 100 = y mod 100"
      using mod_diff_eq [of y 100 1900] by simp
    then show ?thesis using div_step [of 100 "y - 1901"] by (simp add: algebra_simps)
  qed
  have 400: "(y + 1 - 1601) div 400 = (y - 1601) div 400 + (if y mod 400 = 0 then 1 else 0)"
  proof -
    have "(y - 1600) mod 400 = y mod 400"
      using mod_diff_eq [of y 400 1600] by simp
    then show ?thesis using div_step [of 400 "y - 1601"] by (simp add: algebra_simps)
  qed
  have "y mod 100 = y mod 400 mod 100" "y mod 4 = y mod 100 mod 4"
    by (simp_all add: mod_mod_cancel)
  then have c: "y mod 400 = 0 \<Longrightarrow> y mod 100 = 0" "y mod 100 = 0 \<Longrightarrow> y mod 4 = 0"
    by simp_all
  show ?thesis
    unfolding dayFromYear_def daysInYear_def isLeapYear_def
    by (simp only: 4 100 400) (rule leap_aux [OF c])
qed

lemma dayFromYear_pred: "dayFromYear (y - 1) < dayFromYear y"
  using dayFromYear_Suc [of "y - 1"] by (simp add: daysInYear_def)

lemma dayFromYear_less_Suc: "dayFromYear y < dayFromYear (y + 1)"
  using dayFromYear_Suc [of y] by (simp add: daysInYear_def)

function yearDown :: "int \<Rightarrow> int \<Rightarrow> int" where
  "yearDown d y = (if d < dayFromYear y then yearDown d (y - 1) else y)"
  by pat_completeness auto
termination
proof (relation "measure (\<lambda>(d, y). nat (dayFromYear y - d))")
  show "wf (measure (\<lambda>(d, y). nat (dayFromYear y - d)))" by simp
next
  fix d y :: int
  assume "d < dayFromYear y"
  then show "((d, y - 1), (d, y)) \<in> measure (\<lambda>(d, y). nat (dayFromYear y - d))"
    using dayFromYear_pred [of y] by simp
qed

function yearUp :: "int \<Rightarrow> int \<Rightarrow> int" where
  "yearUp d y = (if dayFromYear (y + 1) \<le> d then yearUp d (y + 1) else y)"
  by pat_completeness auto
termination
proof (relation "measure (\<lambda>(d, y). nat (d + 1 - dayFromYear y))")
  show "wf (measure (\<lambda>(d, y). nat (d + 1 - dayFromYear y)))" by simp
next
  fix d y :: int
  assume "dayFromYear (y + 1) \<le> d"
  then show "((d, y + 1), (d, y)) \<in> measure (\<lambda>(d, y). nat (d + 1 - dayFromYear y))"
    using dayFromYear_less_Suc [of y] by simp
qed
declare yearDown.simps [simp del] yearUp.simps [simp del]

definition yearFromDay :: "int \<Rightarrow> int" where
  "yearFromDay d = yearUp d (yearDown d (1970 + d div 365))"

text \<open>
  luxon's ISO week calendar: \<^verbatim>\<open>dayOfWeek\<close> (Monday 1 to Sunday 7), the ordinal of a
  day in its year, \<^verbatim>\<open>weeksInWeekYear\<close>, \<^verbatim>\<open>gregorianToWeek\<close> behind \<^verbatim>\<open>date.weekYear\<close>,
  \<^verbatim>\<open>date.weekNumber\<close> and \<^verbatim>\<open>date.toISOWeekDate()\<close>, and \<^verbatim>\<open>weekToGregorian\<close> behind
  \<^verbatim>\<open>DateTime.fromISO\<close> of a week date.
\<close>

definition isoWeekday :: "int \<Rightarrow> int" where
  "isoWeekday d = (let js = (d + 4) mod 7 in if js = 0 then 7 else js)"

definition ordinal :: "int \<Rightarrow> int" where
  "ordinal d = d - dayFromYear (yearFromDay d) + 1"

definition weeksInWeekYear :: "int \<Rightarrow> int" where
  "weeksInWeekYear weekYear =
     (let p1 = (weekYear + weekYear div 4 - weekYear div 100 + weekYear div 400) mod 7;
          last = weekYear - 1;
          p2 = (last + last div 4 - last div 100 + last div 400) mod 7
      in if p1 = 4 \<or> p2 = 3 then 53 else 52)"

record weekDate =
  weekYear :: int
  weekNumber :: int
  weekday :: int

definition gregorianToWeek :: "int \<Rightarrow> weekDate" where
  "gregorianToWeek d =
     (let year = yearFromDay d;
          wd = isoWeekday d;
          wn = (ordinal d - wd + 10) div 7
      in if wn < 1 then \<lparr>weekYear = year - 1, weekNumber = weeksInWeekYear (year - 1), weekday = wd\<rparr>
         else if wn > weeksInWeekYear year then \<lparr>weekYear = year + 1, weekNumber = 1, weekday = wd\<rparr>
         else \<lparr>weekYear = year, weekNumber = wn, weekday = wd\<rparr>)"

definition weekToGregorian :: "weekDate \<Rightarrow> int" where
  "weekToGregorian w =
     (let weekdayOfJan4 = isoWeekday (dayFromYear (weekYear w) + 3);
          yearInDays = daysInYear (weekYear w);
          ord = weekNumber w * 7 + weekday w - weekdayOfJan4 - 3
      in if ord < 1 then dayFromYear (weekYear w - 1) + (ord + daysInYear (weekYear w - 1)) - 1
         else if ord > yearInDays then dayFromYear (weekYear w + 1) + (ord - yearInDays) - 1
         else dayFromYear (weekYear w) + ord - 1)"

text \<open>
  \<^verbatim>\<open>DateTime.fromISO(`${year}-W01-6T00:00Z`)\<close>: the week-date pattern wants four digits
  for the year, and the week and the weekday must exist; otherwise the result is
  invalid (\<open>None\<close>).
\<close>

definition fromISOWeekDate :: "int \<Rightarrow> int \<Rightarrow> int \<Rightarrow> int option" where
  "fromISOWeekDate y w wd =
     (if 1000 \<le> y \<and> y \<le> 9999 \<and> 1 \<le> w \<and> w \<le> weeksInWeekYear y \<and> 1 \<le> wd \<and> wd \<le> 7
      then Some (weekToGregorian \<lparr>weekYear = y, weekNumber = w, weekday = wd\<rparr>)
      else None)"

text \<open>
  \<^verbatim>\<open>toISOWeekDate\<close> formats with \<^verbatim>\<open>kkkk-'W'WW-c\<close>: the week-year padded to four digits,
  the week number padded to two, the weekday.
\<close>

definition padStart :: "nat \<Rightarrow> int \<Rightarrow> jsstring" where
  "padStart n input =
     (if input < 0 then
        45 # replicate (n - length (digits (nat (- input)))) 48 @ digits (nat (- input))
      else replicate (n - length (digits (nat input))) 48 @ digits (nat input))"

definition toISOWeekDate :: "int \<Rightarrow> jsstring" where
  "toISOWeekDate date =
     (let w = gregorianToWeek date
      in padStart 4 (weekYear w) @ str ''-W'' @ padStart 2 (weekNumber w)
           @ str ''-'' @ numberToString (weekday w))"

text \<open>
  The dates \<^verbatim>\<open>for (let date = dateFrom; +date < +dateTo; date = date.plus({ weeks: 1 }))\<close>
  visits.
\<close>

function weeksFrom :: "int \<Rightarrow> int \<Rightarrow> int list" where
  "weeksFrom date dateTo = (if date < dateTo then date # weeksFrom (date + 7) dateTo else [])"
  by pat_completeness auto
termination
  by (relation "measure (\<lambda>(date, dateTo). nat (dateTo - date))") auto
declare weeksFrom.simps [simp del]


section \<open>\<^verbatim>\<open>ingest\<close>\<close>

text \<open>
  The state the script works on: the files, the database, and a trace of what it
  asked of the outside (the dates it sent a request for, the files it gave to
  \<^verbatim>\<open>JSDOM.fromFile\<close>, the errors it logged). The outside is an environment: what the
  server answers for a date, the rows jsdom finds in a document, the rows the
  database takes.
\<close>

record world =
  disk :: fs
  db :: database
  requested :: "int list"
  parsed :: "path list"
  console :: "log list"

record env =
  respond :: "int \<Rightarrow> response"
  jsdom :: "jsstring \<Rightarrow> page"
  dbAccepts :: "dbrow list \<Rightarrow> dbrow \<Rightarrow> bool"

definition appendFile :: "path \<Rightarrow> jsstring \<Rightarrow> fs \<Rightarrow> fs" where
  "appendFile p data fsys = fsys(p \<mapsto> (case fsys p of None \<Rightarrow> data | Some old \<Rightarrow> old @ data))"

definition entryValues :: "int \<Rightarrow> entry \<Rightarrow> jsval list" where
  "entryValues date e =
     [Num (weekYear (gregorianToWeek date)), Num (weekNumber (gregorianToWeek date)),
      position e, artist e, title e]"

definition entryLine :: "int \<Rightarrow> entry \<Rightarrow> jsstring" where
  "entryLine date e = JSON_stringify (entryValues date e) @ [10]"

text \<open>
  \<^verbatim>\<open>ingest\<close> is the same text in both versions and calls the \<^verbatim>\<open>parseHtml\<close> of its
  version. It downloads when the page is not cached (the result of \<^verbatim>\<open>download\<close> is not
  looked at), opens the record file for appending, which creates it, and writes one
  line per entry as the generator yields it. \<^verbatim>\<open>JSDOM.fromFile\<close> throws when the page
  file is not there; an exception of the generator ends \<^verbatim>\<open>ingest\<close> after the lines of
  the entries yielded before it.
\<close>

definition ingestWith :: "(page \<Rightarrow> run) \<Rightarrow> env \<Rightarrow> int \<Rightarrow> path \<Rightarrow> world \<Rightarrow> error option \<times> world" where
  "ingestWith parseHtml env date jsonlFileName w =
     (let htmlFileName = HtmlFile date;
          w1 = (if disk w htmlFileName = None then
                  (let r = download (respond env date) htmlFileName (disk w)
                   in w\<lparr>disk := dl_files r, requested := requested w @ [date],
                        console := console w @ dl_logged r\<rparr>)
                else w);
          w2 = w1\<lparr>disk := appendFile jsonlFileName [] (disk w1),
                  parsed := parsed w1 @ [htmlFileName]\<rparr>
      in case disk w2 htmlFileName of
           None \<Rightarrow> (Some NoSuchFile, w2)
         | Some html \<Rightarrow>
             (let r = parseHtml (jsdom env html)
              in (raised r,
                  w2\<lparr>disk := appendFile jsonlFileName
                         (concat (map (entryLine date) (yielded r))) (disk w2),
                     console := console w2 @ logged r\<rparr>)))"

fun ingestAll :: "(page \<Rightarrow> run) \<Rightarrow> env \<Rightarrow> path \<Rightarrow> int list \<Rightarrow> world \<Rightarrow> error option \<times> world" where
  "ingestAll parseHtml env jsonlFileName [] w = (None, w)"
| "ingestAll parseHtml env jsonlFileName (date # dates) w =
     (case ingestWith parseHtml env date jsonlFileName w of
        (Some e, w') \<Rightarrow> (Some e, w')
      | (None, w') \<Rightarrow> ingestAll parseHtml env jsonlFileName dates w')"

definition storeIn ::
  "((dbrow list \<Rightarrow> dbrow \<Rightarrow> bool) \<Rightarrow> fs \<Rightarrow> path \<Rightarrow> database \<Rightarrow> store_result) \<Rightarrow> env \<Rightarrow> path \<Rightarrow> world
     \<Rightarrow> error option \<times> world" where
  "storeIn store env jsonlFileName w =
     (let r = store (dbAccepts env) (disk w) jsonlFileName (db w)
      in (st_raised r, w\<lparr>db := st_db r, console := console w @ st_logged r\<rparr>))"

section \<open>\<^verbatim>\<open>main\<close>\<close>

text \<open>
  The dates one year of the loop hands to \<^verbatim>\<open>ingest\<close>: from the Saturday of week 1
  (week 31 in 1958) up to, not including, the Saturday of week 1 of the next year;
  version A passes over the date whose \<^verbatim>\<open>toISOWeekDate()\<close> is \<^verbatim>\<open>'1961-W52-6'\<close>
  (\<^verbatim>\<open>continue\<close>). \<open>None\<close> is the \<^verbatim>\<open>'Date parse error!'\<close> return.
\<close>

definition weekEndingDatesA :: "int \<Rightarrow> int list option" where
  "weekEndingDatesA year =
     (case (fromISOWeekDate year (if year = 1958 then 31 else 1) 6,
            fromISOWeekDate (year + 1) 1 6) of
        (Some dateFrom, Some dateTo) \<Rightarrow>
          Some (filter (\<lambda>date. toISOWeekDate date \<noteq> str ''1961-W52-6'')
                  (weeksFrom dateFrom dateTo))
      | _ \<Rightarrow> None)"

definition weekEndingDatesB :: "int \<Rightarrow> int list option" where
  "weekEndingDatesB yearInput =
     (case (fromISOWeekDate yearInput 1 6, fromISOWeekDate (yearInput + 1) 1 6) of
        (Some dateFrom, Some dateTo) \<Rightarrow> Some (weeksFrom dateFrom dateTo)
      | _ \<Rightarrow> None)"

datatype outcome = Returned | Continue | Threw error

text \<open>
  One turn of the year loop of version A. In the \<^verbatim>\<open>catch\<close> block the first statement
  is \<^verbatim>\<open>throw err\<close>; the statements after it (log, \<^verbatim>\<open>fs.unlinkSync\<close>, \<^verbatim>\<open>--year\<close>,
  \<^verbatim>\<open>continue\<close>) are never run and have no part in the model. The arguments are taken
  as parsed numbers; the checks on \<^verbatim>\<open>process.argv\<close> are left out.
\<close>

definition yearA :: "env \<Rightarrow> int \<Rightarrow> world \<Rightarrow> outcome \<times> world" where
  "yearA env year w =
     (case weekEndingDatesA year of
        None \<Rightarrow> (Returned, w\<lparr>console := console w @ [ConsoleError ''Date parse error!'']\<rparr>)
      | Some dates \<Rightarrow>
          (let jsonlFileName = JsonlFile year in
           case (if disk w jsonlFileName = None
                 then ingestAll parseHtmlA env jsonlFileName dates w else (None, w)) of
             (Some e, w1) \<Rightarrow> (Threw e, w1)
           | (None, w1) \<Rightarrow>
               (case storeIn storeA env jsonlFileName w1 of
                  (Some err, w2) \<Rightarrow> (Threw err, w2)
                | (None, w2) \<Rightarrow> (Continue, w2))))"

function yearsLoopA :: "env \<Rightarrow> int \<Rightarrow> int \<Rightarrow> world \<Rightarrow> outcome \<times> world" where
  "yearsLoopA env year yearEnd w =
     (if year \<le> yearEnd then
        (case yearA env year w of
           (Continue, w') \<Rightarrow> yearsLoopA env (year + 1) yearEnd w'
         | (out, w') \<Rightarrow> (out, w'))
      else (Returned, w))"
  by pat_completeness auto
termination
  by (relation "measure (\<lambda>(env, year, yearEnd, w). nat (yearEnd + 1 - year))") auto
declare yearsLoopA.simps [simp del]

definition mainA :: "env \<Rightarrow> int \<Rightarrow> int \<Rightarrow> world \<Rightarrow> outcome \<times> world" where
  "mainA env yearStart yearEnd w =
     (if yearStart < 1958 \<or> yearEnd > 2022 then
        (Returned,
         w\<lparr>console := console w @ [ConsoleError ''Year outside available range of 1958-2022!'']\<rparr>)
      else yearsLoopA env yearStart yearEnd w)"

definition mainB :: "env \<Rightarrow> int \<Rightarrow> world \<Rightarrow> outcome \<times> world" where
  "mainB env yearInput w =
     (case weekEndingDatesB yearInput of
        None \<Rightarrow> (Returned, w\<lparr>console := console w @ [ConsoleError ''Date parse error!'']\<rparr>)
      | Some dates \<Rightarrow>
          (let jsonlFileName = JsonlFile yearInput in
           case (if disk w jsonlFileName = None
                 then ingestAll parseHtmlB env jsonlFileName dates w else (None, w)) of
             (Some e, w1) \<Rightarrow> (Threw e, w1)
           | (None, w1) \<Rightarrow>
               (case storeIn storeB env jsonlFileName w1 of
                  (Some err, w2) \<Rightarrow> (Threw err, w2)
                | (None, w2) \<Rightarrow> (Returned, w2))))"


section \<open>Pages: vocabulary of the statements\<close>

text \<open>
  The definitions of this section are not code of the script. They name the pages
  the properties speak about: a query that finds an element whose first child is a
  text node with something other than white space in it, a page of 100 such rows,
  and the rank labels of the layout version B reads.
\<close>

definition nonBlank :: "jsstring \<Rightarrow> bool" where
  "nonBlank s \<longleftrightarrow> (\<exists>c\<in>set s. \<not> isWhiteSpace c)"

fun firstText :: "element option \<Rightarrow> jsstring option" where
  "firstText None = None"
| "firstText (Some el) = (case firstChild el of None \<Rightarrow> None | Some n \<Rightarrow> nodeValue n)"

definition hasText :: "element option \<Rightarrow> bool" where
  "hasText q \<longleftrightarrow> (case firstText q of None \<Rightarrow> False | Some s \<Rightarrow> nonBlank s)"

definition wellFormedPage :: "page \<Rightarrow> bool" where
  "wellFormedPage rows \<longleftrightarrow>
     length rows = 100 \<and> list_all (\<lambda>r. hasText (titleQuery r) \<and> hasText (artistQuery r)) rows"

definition rankLabelled :: "page \<Rightarrow> bool" where
  "rankLabelled rows \<longleftrightarrow>
     map (\<lambda>r. map_option trim (firstText (rankQuery r))) rows =
     map (\<lambda>n. Some (digits n)) [1..<length rows + 1]"

text \<open>
  \<open>safeQuery q\<close>: the chain \<^verbatim>\<open>q?.firstChild.nodeValue.trim()\<close> does not throw;
  \<open>fieldOf q\<close> is then its value.
\<close>

definition safeQuery :: "element option \<Rightarrow> bool" where
  "safeQuery q \<longleftrightarrow> textOf q \<noteq> Inl TypeError"

definition fieldOf :: "element option \<Rightarrow> jsval" where
  "fieldOf q = (case textOf q of Inl e \<Rightarrow> Undefined | Inr v \<Rightarrow> v)"

text \<open>
  Concrete pages. \<open>samplePage n\<close> has \<open>n\<close> complete rows labelled 1 to \<open>n\<close>. The two
  others have 100 rows. In \<open>pageMissingTitle\<close> the first row has no
  \<^verbatim>\<open>h3#title-of-a-story\<close>; the artist selector \<^verbatim>\<open>h3#title-of-a-story + span\<close> needs that
  element, so it finds nothing either. In \<open>pageChildlessTitle\<close> the first row has the
  title element, with no child, and the span after it.
\<close>

definition textElement :: "jsstring \<Rightarrow> element option" where
  "textElement s = Some (Element (Some (Node (Some s))))"

definition sampleRow :: "nat \<Rightarrow> row" where
  "sampleRow n = \<lparr>rankQuery = textElement (digits n),
                  titleQuery = textElement (str '' Song ''),
                  artistQuery = textElement (str ''Artist'')\<rparr>"

definition samplePage :: "nat \<Rightarrow> page" where
  "samplePage n = map sampleRow [1..<n + 1]"

definition pageMissingTitle :: page where
  "pageMissingTitle =
     (sampleRow 1)\<lparr>titleQuery := None, artistQuery := None\<rparr> # samplePage 99"

definition pageChildlessTitle :: page where
  "pageChildlessTitle = (sampleRow 1)\<lparr>titleQuery := Some (Element None)\<rparr> # samplePage 99"


section \<open>Weeks, rows and files: vocabulary of the statements\<close>

text \<open>
  Not code of the script either. \<open>saturdayOfWeek year w\<close> is the Saturday of ISO week
  \<open>w\<close> of a year; \<open>firstWeek\<close> and \<open>lastWeek\<close> are the first and the last week version A
  ingests for a year (week 52 of 1961 is the last week of that year and is passed
  over).
\<close>

definition weekdayOfJan4 :: "int \<Rightarrow> int" where
  "weekdayOfJan4 y = isoWeekday (dayFromYear y + 3)"

definition saturday1 :: "int \<Rightarrow> int" where
  "saturday1 y = weekToGregorian \<lparr>weekYear = y, weekNumber = 1, weekday = 6\<rparr>"

definition saturdayOfWeek :: "int \<Rightarrow> nat \<Rightarrow> int" where
  "saturdayOfWeek year w = weekToGregorian \<lparr>weekYear = year, weekNumber = int w, weekday = 6\<rparr>"

definition firstWeek :: "int \<Rightarrow> nat" where
  "firstWeek year = (if year = 1958 then 31 else 1)"


definition keptWeeks :: "int \<Rightarrow> nat list" where
  "keptWeeks year =
     filter (\<lambda>w. \<not> (year = 1961 \<and> w = 52)) [firstWeek year..<Suc (nat (weeksInWeekYear year))]"

text \<open>
  \<open>rowOf correction line\<close> is the row \<^verbatim>\<open>store\<close> inserts for a line that parses;
  \<open>failsWith \<dots> line e\<close> says that the line makes \<^verbatim>\<open>store\<close> throw \<open>e\<close>: it does not
  parse, or the database refuses its row. \<open>undefinedToNull\<close> is what a value is read
  back as.
\<close>

definition undefinedToNull :: "jsval \<Rightarrow> jsval" where
  "undefinedToNull v = (if v = Undefined then Null else v)"

definition endsValue :: "jsstring \<Rightarrow> bool" where
  "endsValue r \<longleftrightarrow> (\<exists>r'. r = 44 # r' \<or> r = 93 # r')"

definition rowOf :: "(jsval list \<Rightarrow> jsval list) \<Rightarrow> jsstring \<Rightarrow> dbrow option" where
  "rowOf correction line =
     (case JSON_parse line of
        Inl e \<Rightarrow> None
      | Inr values \<Rightarrow> Some (map prepareValue (correction values)))"

definition failsWith ::
  "(jsval list \<Rightarrow> jsval list) \<Rightarrow> (dbrow list \<Rightarrow> dbrow \<Rightarrow> bool) \<Rightarrow> dbrow list \<Rightarrow> jsstring \<Rightarrow> error
     \<Rightarrow> bool" where
  "failsWith correction accepts visible line e \<longleftrightarrow>
     (case JSON_parse line of
        Inl e' \<Rightarrow> e = e'
      | Inr values \<Rightarrow>
          e = DatabaseError \<and> \<not> accepts visible (map prepareValue (correction values)))"

text \<open>
  Concrete inputs: the line of the specification, a record file holding it, a file
  with a second line that is no JSON, an empty database that takes every row, and a
  server that answers 404.
\<close>

definition literalLine :: jsstring where
  "literalLine = str ''[1984, 7, \"99\", \"Some Artist\", \"Remember The Nights\"]''"

definition literalContent :: jsstring where
  "literalContent = literalLine @ [10]"

definition brokenContent :: jsstring where
  "brokenContent = literalLine @ [10] @ str ''oops'' @ [10]"

definition literalFile :: fs where
  "literalFile = [JsonlFile 1984 \<mapsto> literalContent]"

definition brokenFile :: fs where
  "brokenFile = [JsonlFile 1984 \<mapsto> brokenContent]"

definition emptyDb :: database where
  "emptyDb = \<lparr>table = [], pending = None\<rparr>"

definition acceptAll :: "dbrow list \<Rightarrow> dbrow \<Rightarrow> bool" where
  "acceptAll visible r = True"

definition offlineEnv :: env where
  "offlineEnv =
     \<lparr>respond = (\<lambda>date. \<lparr>statusCode = 404, contentType = None, body = []\<rparr>),
      jsdom = (\<lambda>html. []),
      dbAccepts = acceptAll\<rparr>"

definition literalWorld :: world where
  "literalWorld = \<lparr>disk = literalFile, db = emptyDb, requested = [], parsed = [], console = []\<rparr>"

definition brokenWorld :: world where
  "brokenWorld = \<lparr>disk = brokenFile, db = emptyDb, requested = [], parsed = [], console = []\<rparr>"


chapter \<open>Properties\<close>

section \<open>Fetcher\<close>

text \<open>
  C8. A response whose status code is not 200, or whose content-type header is not
  exactly \<^verbatim>\<open>text/html; charset=UTF-8\<close> (an absent header included), makes \<^verbatim>\<open>download\<close>
  log the deviation and return \<^verbatim>\<open>null\<close>; the files are what they were, so no cache
  file has been created. \<^verbatim>\<open>download\<close> has no exceptional result in these branches.
\<close>

theorem download_soft_failure:
  "statusCode resp \<noteq> 200 \<or> contentType resp \<noteq> Some (str ''text/html; charset=UTF-8'') \<Longrightarrow>
   returned (download resp htmlFileName files) = Null
   \<and> dl_files (download resp htmlFileName files) = files
   \<and> dl_logged (download resp htmlFileName files) =
       [ConsoleError (if statusCode resp \<noteq> 200 then ''Status code is not 200!''
                      else ''Content type is unexpected!'')]"
  by (auto simp: download_def)

theorem download_soft_failure_witness:
  "download \<lparr>statusCode = 404, contentType = Some (str ''text/html; charset=UTF-8''),
             body = [str ''gone'']\<rparr> (HtmlFile 0) Map.empty =
     \<lparr>returned = Null, dl_logged = [ConsoleError ''Status code is not 200!''],
      dl_files = Map.empty\<rparr>
   \<and> download \<lparr>statusCode = 200, contentType = Some (str ''text/html; charset=utf-8''),
               body = [str ''page'']\<rparr> (HtmlFile 0) Map.empty =
     \<lparr>returned = Null, dl_logged = [ConsoleError ''Content type is unexpected!''],
      dl_files = Map.empty\<rparr>
   \<and> download \<lparr>statusCode = 200, contentType = None,
               body = [str ''page'']\<rparr> (HtmlFile 0) Map.empty =
     \<lparr>returned = Null, dl_logged = [ConsoleError ''Content type is unexpected!''],
      dl_files = Map.empty\<rparr>"
  using
    download_soft_failure [of "\<lparr>statusCode = 404, contentType = Some (str ''text/html; charset=UTF-8''),
             body = [str ''gone'']\<rparr>" "HtmlFile 0" Map.empty]
    download_soft_failure [of "\<lparr>statusCode = 200, contentType = Some (str ''text/html; charset=utf-8''),
               body = [str ''page'']\<rparr>" "HtmlFile 0" Map.empty]
    download_soft_failure [of "\<lparr>statusCode = 200, contentType = None,
               body = [str ''page'']\<rparr>" "HtmlFile 0" Map.empty]
  by (simp add: str_def download_def)

section \<open>Extractor\<close>

subsection \<open>Text of a query result\<close>

lemma trim_nonBlank: "nonBlank s \<Longrightarrow> trim s \<noteq> []"
proof -
  assume "nonBlank s"
  then obtain c where c: "c \<in> set s" "\<not> isWhiteSpace c" by (auto simp: nonBlank_def)
  then have ne: "dropWhile isWhiteSpace s \<noteq> []" by auto
  then have "\<not> isWhiteSpace (hd (dropWhile isWhiteSpace s))" by (simp add: hd_dropWhile)
  moreover have "hd (dropWhile isWhiteSpace s) \<in> set (rev (dropWhile isWhiteSpace s))"
    using ne by simp
  ultimately have "dropWhile isWhiteSpace (rev (dropWhile isWhiteSpace s)) \<noteq> []"
    by (metis dropWhile_eq_Nil_conv)
  then show ?thesis by (simp add: trim_def)
qed

lemma trim_id: "s \<noteq> [] \<Longrightarrow> \<not> isWhiteSpace (hd s) \<Longrightarrow> \<not> isWhiteSpace (last s) \<Longrightarrow> trim s = s"
proof -
  assume a: "s \<noteq> []" "\<not> isWhiteSpace (hd s)" "\<not> isWhiteSpace (last s)"
  then have 1: "dropWhile isWhiteSpace s = s" by (cases s) auto
  have "rev s \<noteq> []" "\<not> isWhiteSpace (hd (rev s))" using a by (simp_all add: hd_rev)
  then have "dropWhile isWhiteSpace (rev s) = rev s" by (cases "rev s") auto
  with 1 show ?thesis by (simp add: trim_def)
qed

lemma digits_ne: "digits n \<noteq> []"
  by (subst digits.simps) simp

lemma digits_set: "c \<in> set (digits n) \<Longrightarrow> 48 \<le> c \<and> c \<le> 57"
proof (induction n arbitrary: c rule: digits.induct)
  case (1 n)
  then show ?case
    using digits.simps [of n] by (auto split: if_splits)
qed

lemma trim_digits: "trim (digits n) = digits n"
proof (rule trim_id)
  show "digits n \<noteq> []" by (rule digits_ne)
  have "hd (digits n) \<in> set (digits n)" "last (digits n) \<in> set (digits n)"
    using digits_ne by simp_all
  then have "48 \<le> hd (digits n) \<and> hd (digits n) \<le> 57"
    "48 \<le> last (digits n) \<and> last (digits n) \<le> 57" using digits_set by blast+
  then show "\<not> isWhiteSpace (hd (digits n))" "\<not> isWhiteSpace (last (digits n))"
    by (auto simp: isWhiteSpace_def)
qed

lemma digits_nonBlank: "nonBlank (digits n)"
  by (subst digits.simps) (auto simp: nonBlank_def isWhiteSpace_def)

lemma textOf_not_Null: "textOf q \<noteq> Inr Null"
  by (cases q) (auto split: option.splits)

lemma textOf_cases: "textOf q = Inl TypeError \<or> textOf q = Inr Undefined \<or> (\<exists>s. textOf q = Inr (Str s))"
  by (cases q) (auto split: option.splits)

lemma textOf_hasText: "hasText q \<Longrightarrow> \<exists>s. textOf q = Inr (Str s) \<and> s \<noteq> []"
  by (cases q) (auto simp: hasText_def trim_nonBlank split: option.splits)

lemma textOf_safe: "safeQuery q \<Longrightarrow> textOf q = Inr (fieldOf q) \<and> fieldOf q \<noteq> Null"
  using textOf_cases [of q] by (auto simp: safeQuery_def fieldOf_def)

lemma hasText_safe: "hasText q \<Longrightarrow> safeQuery q"
  using textOf_hasText [of q] by (auto simp: safeQuery_def)

lemma hasText_fieldOf: "hasText q \<Longrightarrow> \<exists>s. fieldOf q = Str s \<and> s \<noteq> []"
  using textOf_hasText [of q] by (auto simp: fieldOf_def)

lemma fieldOf_None [simp]: "fieldOf None = Undefined"
  by (simp add: fieldOf_def)

lemma fieldOf_firstText: "firstText q = Some s \<Longrightarrow> fieldOf q = Str (trim s) \<and> safeQuery q"
  by (cases q) (auto simp: fieldOf_def safeQuery_def split: option.splits)

lemma childless_unsafe: "\<not> safeQuery (Some (Element None))"
  by (simp add: safeQuery_def)

subsection \<open>The two loops\<close>

lemma raised_yield [simp]: "raised (yield e r) = raised r"
  and yielded_yield [simp]: "yielded (yield e r) = e # yielded r"
  and logged_yield [simp]: "logged (yield e r) = logged r"
  by (simp_all add: yield_def)

lemma run_throw [simp]: "raised (throw e) = Some e" "yielded (throw e) = []" "logged (throw e) = []"
  by (simp_all add: throw_def)

lemma run_finish [simp]: "raised finish = None" "yielded finish = []" "logged finish = []"
  by (simp_all add: finish_def)

lemma rowsLoopA_raised: "raised (rowsLoopA i rs) = None \<or> raised (rowsLoopA i rs) = Some TypeError"
proof (induction rs arbitrary: i)
  case Nil
  show ?case by simp
next
  case (Cons r rs)
  show ?case
    using textOf_cases [of "titleQuery r"] textOf_cases [of "artistQuery r"] Cons.IH [of "i + 1"]
    by auto
qed

lemma rowsLoopB_raised: "raised (rowsLoopB rs) = None \<or> raised (rowsLoopB rs) = Some TypeError"
proof (induction rs)
  case Nil
  show ?case by simp
next
  case (Cons r rs)
  show ?case
    using textOf_cases [of "titleQuery r"] textOf_cases [of "artistQuery r"]
      textOf_cases [of "rankQuery r"] Cons.IH
    by auto
qed

lemma rowsLoopA_logged: "logged (rowsLoopA i rs) = []"
proof (induction rs arbitrary: i)
  case Nil
  show ?case by simp
next
  case (Cons r rs)
  show ?case
    using Cons.IH [of "i + 1"]
    by (auto split: sum.splits)
qed

lemma rowsLoopB_logged: "logged (rowsLoopB rs) = []"
proof (induction rs)
  case Nil
  show ?case by simp
next
  case (Cons r rs)
  show ?case
    using textOf_not_Null [of "titleQuery r"] textOf_not_Null [of "artistQuery r"]
      textOf_not_Null [of "rankQuery r"] Cons.IH
    by (auto split: sum.splits)
qed

lemma rowsLoopA_yielded:
  "raised (rowsLoopA i rs) = None \<Longrightarrow>
   yielded (rowsLoopA i rs) =
     map (\<lambda>(k, r). \<lparr>position = Num (int k + 1), artist = fieldOf (artistQuery r),
                     title = fieldOf (titleQuery r)\<rparr>) (zip [i..<i + length rs] rs)"
proof (induction rs arbitrary: i)
  case Nil
  show ?case by simp
next
  case (Cons r rs)
  from Cons.prems have ok: "raised (rowsLoopA (i + 1) rs) = None"
    by (auto split: sum.splits if_splits)
  show ?case
    using Cons.prems Cons.IH [OF ok]
    by (auto simp: upt_conv_Cons fieldOf_def simp del: upt_Suc split: sum.splits if_splits)
qed

lemma rowsLoopB_yielded:
  "raised (rowsLoopB rs) = None \<Longrightarrow>
   yielded (rowsLoopB rs) =
     map (\<lambda>r. \<lparr>position = fieldOf (rankQuery r), artist = fieldOf (artistQuery r),
                title = fieldOf (titleQuery r)\<rparr>) rs"
proof (induction rs)
  case Nil
  show ?case by simp
next
  case (Cons r rs)
  from Cons.prems have ok: "raised (rowsLoopB rs) = None"
    by (auto split: sum.splits if_splits)
  show ?case
    using Cons.prems Cons.IH [OF ok]
    by (auto simp: fieldOf_def split: sum.splits if_splits)
qed

lemma rowsLoopA_safe:
  "list_all (\<lambda>r. safeQuery (titleQuery r) \<and> safeQuery (artistQuery r)) rs \<Longrightarrow>
   raised (rowsLoopA i rs) = None"
proof (induction rs arbitrary: i)
  case Nil
  show ?case by simp
next
  case (Cons r rs)
  then show ?case
    using textOf_safe [of "titleQuery r"] textOf_safe [of "artistQuery r"]
    by auto
qed

lemma rowsLoopB_safe:
  "list_all (\<lambda>r. safeQuery (rankQuery r) \<and> safeQuery (titleQuery r) \<and> safeQuery (artistQuery r)) rs \<Longrightarrow>
   raised (rowsLoopB rs) = None"
proof (induction rs)
  case Nil
  show ?case by simp
next
  case (Cons r rs)
  then show ?case
    using textOf_safe [of "titleQuery r"] textOf_safe [of "artistQuery r"]
      textOf_safe [of "rankQuery r"]
    by auto
qed

lemma rowsLoopA_TypeError:
  "r \<in> set rs \<Longrightarrow> \<not> safeQuery (titleQuery r) \<or> \<not> safeQuery (artistQuery r) \<Longrightarrow>
   raised (rowsLoopA i rs) = Some TypeError"
proof (induction rs arbitrary: i)
  case Nil
  then show ?case by simp
next
  case (Cons x rs)
  show ?case
  proof (cases "x = r")
    case True
    then show ?thesis
      using Cons.prems(2) textOf_cases [of "titleQuery r"] textOf_cases [of "artistQuery r"]
      by (auto simp: safeQuery_def)
  next
    case False
    with Cons.prems have "r \<in> set rs" by simp
    from Cons.IH [OF this Cons.prems(2)] show ?thesis
      using textOf_cases [of "titleQuery x"] textOf_cases [of "artistQuery x"]
      by auto
  qed
qed

lemma rowsLoopB_TypeError:
  "r \<in> set rs \<Longrightarrow>
   \<not> safeQuery (rankQuery r) \<or> \<not> safeQuery (titleQuery r) \<or> \<not> safeQuery (artistQuery r) \<Longrightarrow>
   raised (rowsLoopB rs) = Some TypeError"
proof (induction rs)
  case Nil
  then show ?case by simp
next
  case (Cons x rs)
  show ?case
  proof (cases "x = r")
    case True
    then show ?thesis
      using Cons.prems(2) textOf_cases [of "titleQuery r"] textOf_cases [of "artistQuery r"]
        textOf_cases [of "rankQuery r"]
      by (auto simp: safeQuery_def)
  next
    case False
    with Cons.prems have "r \<in> set rs" by simp
    from Cons.IH [OF this Cons.prems(2)] show ?thesis
      using textOf_cases [of "titleQuery x"] textOf_cases [of "artistQuery x"]
        textOf_cases [of "rankQuery x"]
      by auto
  qed
qed

lemma positions_upt: "map (\<lambda>k. Num (int k + 1)) [0..<n] = map (\<lambda>n. Num (int n)) [1..<n + 1]"
proof -
  have "[1..<n + 1] = map Suc [0..<n]" by (simp add: map_Suc_upt del: upt_Suc)
  then show ?thesis by (simp add: comp_def add.commute del: upt_Suc)
qed

lemma map_position_zip:
  "length ks = length rs \<Longrightarrow>
   map position (map (\<lambda>(k, r). \<lparr>position = f k, artist = g r, title = h r\<rparr>) (zip ks rs)) = map f ks"
  by (induction ks rs rule: list_induct2) simp_all

subsection \<open>The concrete pages\<close>

lemma hasText_textElement [simp]: "hasText (textElement s) = nonBlank s"
  by (simp add: hasText_def textElement_def)

lemma nonBlank_Song: "nonBlank (str '' Song '')"
  by (simp add: nonBlank_def str_def isWhiteSpace_def)

lemma nonBlank_Artist: "nonBlank (str ''Artist'')"
  by (simp add: nonBlank_def str_def isWhiteSpace_def)

lemma length_samplePage [simp]: "length (samplePage n) = n"
  by (simp add: samplePage_def)

lemma samplePage_hasText:
  "list_all (\<lambda>r. hasText (titleQuery r) \<and> hasText (artistQuery r)) (samplePage n)"
  by (simp add: samplePage_def list_all_iff sampleRow_def nonBlank_Song nonBlank_Artist)

lemma samplePage_safe:
  "list_all (\<lambda>r. safeQuery (rankQuery r) \<and> safeQuery (titleQuery r) \<and> safeQuery (artistQuery r))
     (samplePage n)"
  by (simp add: samplePage_def list_all_iff sampleRow_def hasText_safe nonBlank_Song
      nonBlank_Artist digits_nonBlank)

lemma wellFormed_samplePage: "wellFormedPage (samplePage 100)"
  by (simp add: wellFormedPage_def samplePage_hasText)

lemma rankLabelled_samplePage: "rankLabelled (samplePage n)"
  by (simp add: rankLabelled_def samplePage_def sampleRow_def textElement_def trim_digits)

lemma pageMissingTitle_runs:
  "length pageMissingTitle = 100
   \<and> raised (parseHtmlA pageMissingTitle) = None
   \<and> raised (parseHtmlB pageMissingTitle) = None
   \<and> length (yielded (parseHtmlA pageMissingTitle)) = 100
   \<and> length (yielded (parseHtmlB pageMissingTitle)) = 100"
proof -
  have safe: "list_all (\<lambda>r. safeQuery (rankQuery r) \<and> safeQuery (titleQuery r)
                \<and> safeQuery (artistQuery r)) pageMissingTitle"
    using samplePage_safe [of 99]
    by (simp add: pageMissingTitle_def sampleRow_def safeQuery_def textElement_def)
  then have safeA: "list_all (\<lambda>r. safeQuery (titleQuery r) \<and> safeQuery (artistQuery r))
      pageMissingTitle"
    by (simp add: list_all_iff)
  have len: "length pageMissingTitle = 100" by (simp add: pageMissingTitle_def)
  have A: "raised (parseHtmlA pageMissingTitle) = None"
    using len rowsLoopA_safe [OF safeA] by (simp add: parseHtmlA_def)
  have B: "raised (parseHtmlB pageMissingTitle) = None"
    using rowsLoopB_safe [OF safe] by (simp add: parseHtmlB_def)
  have "yielded (parseHtmlA pageMissingTitle) = yielded (rowsLoopA 0 pageMissingTitle)"
    "raised (parseHtmlA pageMissingTitle) = raised (rowsLoopA 0 pageMissingTitle)"
    using len by (simp_all add: parseHtmlA_def)
  then have lenA: "length (yielded (parseHtmlA pageMissingTitle)) = 100"
    using rowsLoopA_yielded [of 0 pageMissingTitle] A len by simp
  have lenB: "length (yielded (parseHtmlB pageMissingTitle)) = 100"
    using rowsLoopB_yielded [of pageMissingTitle] B len by (simp add: parseHtmlB_def)
  show ?thesis using len A B lenA lenB by simp
qed

subsection \<open>Structural rejection\<close>

text \<open>
  C4, as the script has it. In version A a page whose row count is not exactly 100 is
  rejected: nothing is yielded, \<^verbatim>\<open>'Entries are not 100!'\<close> is logged, nothing is
  raised.
\<close>

theorem parseHtmlA_rejects_wrong_count:
  "length rows \<noteq> 100 \<Longrightarrow>
   parseHtmlA rows =
     \<lparr>yielded = [], logged = [ConsoleError ''Entries are not 100!''], raised = None\<rparr>"
  by (simp add: parseHtmlA_def)

theorem parseHtmlA_rejects_wrong_count_witness:
  "length (samplePage 99) \<noteq> 100 \<and> length (samplePage 101) \<noteq> 100
   \<and> yielded (parseHtmlA (samplePage 99)) = [] \<and> raised (parseHtmlA (samplePage 99)) = None
   \<and> logged (parseHtmlA (samplePage 99)) = [ConsoleError ''Entries are not 100!'']
   \<and> yielded (parseHtmlA (samplePage 101)) = [] \<and> raised (parseHtmlA (samplePage 101)) = None
   \<and> logged (parseHtmlA (samplePage 101)) = [ConsoleError ''Entries are not 100!'']"
  using parseHtmlA_rejects_wrong_count [of "samplePage 99"]
    parseHtmlA_rejects_wrong_count [of "samplePage 101"]
  by simp

text \<open>
  C4, as the specification has it, fails twice. Version B has no count check: a page
  of 99 rows yields 99 entries and logs nothing. And in both versions a page of 100
  rows whose first row has no title element (and so no artist element) raises
  nothing and yields all 100 entries.
\<close>

theorem structural_rejection_counterexample:
  "length (samplePage 99) \<noteq> 100
   \<and> length (yielded (parseHtmlB (samplePage 99))) = 99
   \<and> logged (parseHtmlB (samplePage 99)) = []
   \<and> length pageMissingTitle = 100
   \<and> titleQuery (pageMissingTitle ! 0) = None
   \<and> artistQuery (pageMissingTitle ! 0) = None
   \<and> raised (parseHtmlA pageMissingTitle) = None
   \<and> raised (parseHtmlB pageMissingTitle) = None
   \<and> length (yielded (parseHtmlA pageMissingTitle)) = 100
   \<and> length (yielded (parseHtmlB pageMissingTitle)) = 100"
proof -
  have B99: "raised (parseHtmlB (samplePage 99)) = None"
    unfolding parseHtmlB_def by (rule rowsLoopB_safe) (rule samplePage_safe)
  have len99: "length (yielded (parseHtmlB (samplePage 99))) = 99"
    using rowsLoopB_yielded [of "samplePage 99"] B99 by (simp add: parseHtmlB_def)
  have "titleQuery (pageMissingTitle ! 0) = None" "artistQuery (pageMissingTitle ! 0) = None"
    by (simp_all add: pageMissingTitle_def)
  then show ?thesis
    using pageMissingTitle_runs len99 rowsLoopB_logged [of "samplePage 99"]
    by (simp add: parseHtmlB_def)
qed

subsection \<open>Entries of a well-formed page\<close>

text \<open>
  C5. A page of exactly 100 rows, each with a title and an artist element holding
  text that is not blank, is accepted by version A, which yields exactly 100 entries
  with positions 1 to 100 in this order, every artist and title a non-empty string.
  Version B takes the position from the rank label: when the labels read 1 to 100
  in document order, it yields the same 100 entries with these numerals as positions.
\<close>

theorem wellFormed_page_entries:
  assumes wf: "wellFormedPage rows"
  shows "raised (parseHtmlA rows) = None
    \<and> length (yielded (parseHtmlA rows)) = 100
    \<and> map position (yielded (parseHtmlA rows)) = map (\<lambda>n. Num (int n)) [1..<101]
    \<and> (\<forall>e\<in>set (yielded (parseHtmlA rows)).
          \<exists>a t. artist e = Str a \<and> a \<noteq> [] \<and> title e = Str t \<and> t \<noteq> [])
    \<and> (rankLabelled rows \<longrightarrow>
          raised (parseHtmlB rows) = None
        \<and> length (yielded (parseHtmlB rows)) = 100
        \<and> map position (yielded (parseHtmlB rows)) = map (\<lambda>n. Str (digits n)) [1..<101]
        \<and> (\<forall>e\<in>set (yielded (parseHtmlB rows)).
              \<exists>a t. artist e = Str a \<and> a \<noteq> [] \<and> title e = Str t \<and> t \<noteq> []))"
proof -
  from wf have len: "length rows = 100"
    and texts: "\<And>r. r \<in> set rows \<Longrightarrow> hasText (titleQuery r) \<and> hasText (artistQuery r)"
    by (auto simp: wellFormedPage_def list_all_iff)
  have safeA: "list_all (\<lambda>r. safeQuery (titleQuery r) \<and> safeQuery (artistQuery r)) rows"
    using texts by (auto simp: list_all_iff hasText_safe)
  have A: "parseHtmlA rows = rowsLoopA 0 rows" using len by (simp add: parseHtmlA_def)
  have rA: "raised (rowsLoopA 0 rows) = None" by (rule rowsLoopA_safe [OF safeA])
  note yA = rowsLoopA_yielded [OF rA]
  have lA: "length (yielded (rowsLoopA 0 rows)) = 100" using len by (simp add: yA)
  have pA: "map position (yielded (rowsLoopA 0 rows)) = map (\<lambda>n. Num (int n)) [1..<101]"
  proof -
    have "map position (yielded (rowsLoopA 0 rows)) =
        map (\<lambda>k. Num (int k + 1)) [0..<0 + length rows]"
      unfolding yA by (rule map_position_zip) simp
    then show ?thesis using positions_upt [of 100] len by (simp del: upt_Suc)
  qed
  have tA: "\<forall>e\<in>set (yielded (rowsLoopA 0 rows)).
          \<exists>a t. artist e = Str a \<and> a \<noteq> [] \<and> title e = Str t \<and> t \<noteq> []"
  proof
    fix e assume "e \<in> set (yielded (rowsLoopA 0 rows))"
    then obtain k r where "(k, r) \<in> set (zip [0..<0 + length rows] rows)"
      and e: "e = \<lparr>position = Num (int k + 1), artist = fieldOf (artistQuery r),
                   title = fieldOf (titleQuery r)\<rparr>"
      unfolding yA by auto
    then have "r \<in> set rows" by (auto dest: set_zip_rightD)
    from texts [OF this] show "\<exists>a t. artist e = Str a \<and> a \<noteq> [] \<and> title e = Str t \<and> t \<noteq> []"
      using hasText_fieldOf [of "titleQuery r"] hasText_fieldOf [of "artistQuery r"] e
      by auto
  qed
  have B: "rankLabelled rows \<longrightarrow>
          raised (parseHtmlB rows) = None
        \<and> length (yielded (parseHtmlB rows)) = 100
        \<and> map position (yielded (parseHtmlB rows)) = map (\<lambda>n. Str (digits n)) [1..<101]
        \<and> (\<forall>e\<in>set (yielded (parseHtmlB rows)).
              \<exists>a t. artist e = Str a \<and> a \<noteq> [] \<and> title e = Str t \<and> t \<noteq> [])"
  proof
    assume "rankLabelled rows"
    then have lab: "map (\<lambda>r. map_option trim (firstText (rankQuery r))) rows =
        map (\<lambda>n. Some (digits n)) [1..<101]"
      using len by (simp add: rankLabelled_def)
    have rank: "fieldOf (rankQuery (rows ! i)) = Str (digits (i + 1))
        \<and> safeQuery (rankQuery (rows ! i))" if "i < 100" for i
    proof -
      have "map (\<lambda>r. map_option trim (firstText (rankQuery r))) rows ! i =
          map (\<lambda>n. Some (digits n)) [1..<101] ! i"
        by (simp only: lab)
      then have "map_option trim (firstText (rankQuery (rows ! i))) = Some (digits (i + 1))"
        using that len by (simp del: upt_Suc)
      then obtain s where "firstText (rankQuery (rows ! i)) = Some s" "trim s = digits (i + 1)"
        by auto
      then show ?thesis using fieldOf_firstText [of "rankQuery (rows ! i)" s] by simp
    qed
    have safeB: "list_all (\<lambda>r. safeQuery (rankQuery r) \<and> safeQuery (titleQuery r)
        \<and> safeQuery (artistQuery r)) rows"
      using texts rank len by (auto simp: list_all_length hasText_safe)
    have rB: "raised (rowsLoopB rows) = None" by (rule rowsLoopB_safe [OF safeB])
    note yB = rowsLoopB_yielded [OF rB]
    have pB: "map position (yielded (rowsLoopB rows)) = map (\<lambda>n. Str (digits n)) [1..<101]"
      using len rank by (auto simp: yB intro!: nth_equalityI simp del: upt_Suc)
    have tB: "\<forall>e\<in>set (yielded (rowsLoopB rows)).
          \<exists>a t. artist e = Str a \<and> a \<noteq> [] \<and> title e = Str t \<and> t \<noteq> []"
      using texts hasText_fieldOf unfolding yB by fastforce
    show "raised (parseHtmlB rows) = None
        \<and> length (yielded (parseHtmlB rows)) = 100
        \<and> map position (yielded (parseHtmlB rows)) = map (\<lambda>n. Str (digits n)) [1..<101]
        \<and> (\<forall>e\<in>set (yielded (parseHtmlB rows)).
              \<exists>a t. artist e = Str a \<and> a \<noteq> [] \<and> title e = Str t \<and> t \<noteq> [])"
      using rB pB tB len by (simp add: parseHtmlB_def yB)
  qed
  show ?thesis using rA lA pA tA B by (simp only: A) 
qed

theorem wellFormed_page_entries_witness:
  "wellFormedPage (samplePage 100) \<and> rankLabelled (samplePage 100)
   \<and> raised (parseHtmlA (samplePage 100)) = None
   \<and> map position (yielded (parseHtmlA (samplePage 100))) = map (\<lambda>n. Num (int n)) [1..<101]
   \<and> raised (parseHtmlB (samplePage 100)) = None
   \<and> map position (yielded (parseHtmlB (samplePage 100))) = map (\<lambda>n. Str (digits n)) [1..<101]"
  using wellFormed_page_entries [OF wellFormed_samplePage] rankLabelled_samplePage [of 100]
    wellFormed_samplePage
  by simp

subsection \<open>The null guard\<close>

text \<open>
  C10. In both versions the operands of the guard \<^verbatim>\<open>=== null\<close> are never \<^verbatim>\<open>null\<close>:
  the optional chain gives \<^verbatim>\<open>undefined\<close> for an absent element and a trimmed string
  otherwise. So the guarded branch is never taken: no run ends with
  \<^verbatim>\<open>Error('Unexpected HTML')\<close> (or with the \<^verbatim>\<open>ReferenceError\<close> the branch of version A
  would throw), and version B never logs. A run ends normally or with a \<^verbatim>\<open>TypeError\<close>.
  When it ends normally, the entry of a row without a title (artist, rank label)
  element has \<^verbatim>\<open>undefined\<close> in that field; a row whose title or artist element has no
  child ends the run with a \<^verbatim>\<open>TypeError\<close>.
\<close>

theorem null_guard_unreachable:
  "textOf q \<noteq> Inr Null
   \<and> raised (parseHtmlA rows) \<in> {None, Some TypeError}
   \<and> raised (parseHtmlB rows) \<in> {None, Some TypeError}
   \<and> logged (parseHtmlB rows) = []
   \<and> (length rows = 100 \<and> raised (parseHtmlA rows) = None \<and> k < length rows \<longrightarrow>
        (titleQuery (rows ! k) = None \<longrightarrow> title (yielded (parseHtmlA rows) ! k) = Undefined)
      \<and> (artistQuery (rows ! k) = None \<longrightarrow> artist (yielded (parseHtmlA rows) ! k) = Undefined))
   \<and> (raised (parseHtmlB rows) = None \<and> k < length rows \<longrightarrow>
        (rankQuery (rows ! k) = None \<longrightarrow> position (yielded (parseHtmlB rows) ! k) = Undefined)
      \<and> (titleQuery (rows ! k) = None \<longrightarrow> title (yielded (parseHtmlB rows) ! k) = Undefined)
      \<and> (artistQuery (rows ! k) = None \<longrightarrow> artist (yielded (parseHtmlB rows) ! k) = Undefined))
   \<and> (k < length rows \<and> (titleQuery (rows ! k) = Some (Element None)
                           \<or> artistQuery (rows ! k) = Some (Element None)) \<longrightarrow>
        raised (parseHtmlB rows) = Some TypeError
      \<and> (length rows = 100 \<longrightarrow> raised (parseHtmlA rows) = Some TypeError))"
proof -
  have 1: "textOf q \<noteq> Inr Null" by (rule textOf_not_Null)
  have 2: "raised (parseHtmlA rows) \<in> {None, Some TypeError}"
    using rowsLoopA_raised [of 0 rows] by (simp add: parseHtmlA_def)
  have 3: "raised (parseHtmlB rows) \<in> {None, Some TypeError}"
    using rowsLoopB_raised [of rows] by (simp add: parseHtmlB_def)
  have 4: "logged (parseHtmlB rows) = []"
    by (simp add: parseHtmlB_def rowsLoopB_logged)
  have 5: "(titleQuery (rows ! k) = None \<longrightarrow> title (yielded (parseHtmlA rows) ! k) = Undefined)
      \<and> (artistQuery (rows ! k) = None \<longrightarrow> artist (yielded (parseHtmlA rows) ! k) = Undefined)"
    if "length rows = 100" "raised (parseHtmlA rows) = None" "k < length rows"
  proof -
    from that have r: "raised (rowsLoopA 0 rows) = None"
      and A: "parseHtmlA rows = rowsLoopA 0 rows"
      by (simp_all add: parseHtmlA_def)
    show ?thesis
      using that(3) by (simp add: A rowsLoopA_yielded [OF r] del: upt_Suc)
  qed
  have 6: "(rankQuery (rows ! k) = None \<longrightarrow> position (yielded (parseHtmlB rows) ! k) = Undefined)
      \<and> (titleQuery (rows ! k) = None \<longrightarrow> title (yielded (parseHtmlB rows) ! k) = Undefined)
      \<and> (artistQuery (rows ! k) = None \<longrightarrow> artist (yielded (parseHtmlB rows) ! k) = Undefined)"
    if "raised (parseHtmlB rows) = None" "k < length rows"
  proof -
    from that have r: "raised (rowsLoopB rows) = None" by (simp add: parseHtmlB_def)
    show ?thesis
      using that(2) by (simp add: parseHtmlB_def rowsLoopB_yielded [OF r])
  qed
  have 7: "raised (parseHtmlB rows) = Some TypeError
      \<and> (length rows = 100 \<longrightarrow> raised (parseHtmlA rows) = Some TypeError)"
    if "k < length rows" "titleQuery (rows ! k) = Some (Element None)
                           \<or> artistQuery (rows ! k) = Some (Element None)"
  proof -
    from that(1) have mem: "rows ! k \<in> set rows" by simp
    from that(2) have bad: "\<not> safeQuery (titleQuery (rows ! k)) \<or> \<not> safeQuery (artistQuery (rows ! k))"
      using childless_unsafe by auto
    then have bad': "\<not> safeQuery (rankQuery (rows ! k)) \<or> \<not> safeQuery (titleQuery (rows ! k))
        \<or> \<not> safeQuery (artistQuery (rows ! k))"
      by blast
    show ?thesis
      using rowsLoopA_TypeError [OF mem bad, of 0] rowsLoopB_TypeError [OF mem bad']
      by (simp add: parseHtmlA_def parseHtmlB_def)
  qed
  from 1 2 3 4 5 6 7 show ?thesis by blast
qed

theorem null_guard_unreachable_witness:
  "length pageMissingTitle = 100 \<and> 0 < length pageMissingTitle
   \<and> titleQuery (pageMissingTitle ! 0) = None
   \<and> artistQuery (pageMissingTitle ! 0) = None
   \<and> raised (parseHtmlA pageMissingTitle) = None
   \<and> raised (parseHtmlB pageMissingTitle) = None
   \<and> title (yielded (parseHtmlA pageMissingTitle) ! 0) = Undefined
   \<and> artist (yielded (parseHtmlA pageMissingTitle) ! 0) = Undefined
   \<and> title (yielded (parseHtmlB pageMissingTitle) ! 0) = Undefined
   \<and> artist (yielded (parseHtmlB pageMissingTitle) ! 0) = Undefined
   \<and> length pageChildlessTitle = 100 \<and> 0 < length pageChildlessTitle
   \<and> titleQuery (pageChildlessTitle ! 0) = Some (Element None)
   \<and> raised (parseHtmlA pageChildlessTitle) = Some TypeError
   \<and> raised (parseHtmlB pageChildlessTitle) = Some TypeError"
  using null_guard_unreachable [of None pageMissingTitle 0]
    null_guard_unreachable [of None pageChildlessTitle 0]
    pageMissingTitle_runs
  by (simp add: pageChildlessTitle_def pageMissingTitle_def)


section \<open>JSON round trip\<close>

subsection \<open>Strings\<close>

lemma hexVal_hexDigit: "n < 16 \<Longrightarrow> hexVal (hexDigit n) = Some n"
  by (auto simp: hexVal_def hexDigit_def)

lemma hex_aux:
  "c = x1 * 16 + m1 \<Longrightarrow> x1 = x2 * 16 + m2 \<Longrightarrow> x2 = x3 * 16 + m3 \<Longrightarrow>
   ((x3 * 16 + m3) * 16 + m2) * 16 + m1 = (c::nat)"
  by simp

lemma hex_digits_value:
  assumes "c < 65536"
  shows "((c div 4096 mod 16 * 16 + c div 256 mod 16) * 16 + c div 16 mod 16) * 16 + c mod 16 = (c::nat)"
proof -
  have 1: "c = (c div 16) * 16 + c mod 16" by simp
  have 2: "c div 16 = (c div 256) * 16 + c div 16 mod 16"
    using div_mult_mod_eq [of "c div 16" 16] by (simp add: div_mult2_eq [symmetric])
  have 3: "c div 256 = (c div 4096) * 16 + c div 256 mod 16"
    using div_mult_mod_eq [of "c div 256" 16] by (simp add: div_mult2_eq [symmetric])
  have 5: "c div 4096 mod 16 = c div 4096" using assms by simp
  show ?thesis unfolding 5 by (rule hex_aux [OF 1 2 3])
qed

lemma hex4_unicodeEscape:
  assumes "c < 65536"
  shows "hex4 [hexDigit (c div 4096 mod 16), hexDigit (c div 256 mod 16),
               hexDigit (c div 16 mod 16), hexDigit (c mod 16)] = Some (c, [])"
proof -
  have v: "hexVal (hexDigit (c div 4096 mod 16)) = Some (c div 4096 mod 16)"
    "hexVal (hexDigit (c div 256 mod 16)) = Some (c div 256 mod 16)"
    "hexVal (hexDigit (c div 16 mod 16)) = Some (c div 16 mod 16)"
    "hexVal (hexDigit (c mod 16)) = Some (c mod 16)"
    by (simp_all add: hexVal_hexDigit)
  show ?thesis
    unfolding hex4_def
    by (simp only: v list.case prod.case option.case hex_digits_value [OF assms])
qed

lemma parseChars_unicodeEscape:
  "c < 65536 \<Longrightarrow> parseChars (unicodeEscape c @ rest) = consUnit c (parseChars rest)"
  using hex4_unicodeEscape [of c] by (simp add: unicodeEscape_def)

lemma parseChars_quoteUnit:
  "parseChars (quoteUnit c @ rest) = consUnit c (parseChars rest)"
proof (cases "c < 32")
  case True
  then have "c < 65536" by simp
  from parseChars_unicodeEscape [OF this] show ?thesis
    by (simp add: quoteUnit_def unescape_def)
next
  case False
  then show ?thesis by (simp add: quoteUnit_def unescape_def)
qed

lemma parseChars_raw:
  "32 \<le> c \<Longrightarrow> c \<noteq> 34 \<Longrightarrow> c \<noteq> 92 \<Longrightarrow> parseChars (c # rest) = consUnit c (parseChars rest)"
  by simp

lemma consUnit_Some [simp]: "consUnit c (Some (s, r)) = Some (c # s, r)"
  by (simp add: consUnit_def)

lemma parseChars_quoteUnits: "parseChars (quoteUnits s @ 34 # r) = Some (s, r)"
proof (induction s rule: quoteUnits.induct)
  case 1
  show ?case by simp
next
  case (2 c)
  show ?case
  proof (cases "isLeadSurrogate c \<or> isTrailSurrogate c")
    case True
    then have "c < 65536" by (auto simp: isLeadSurrogate_def isTrailSurrogate_def)
    with True show ?thesis by (simp add: parseChars_unicodeEscape)
  next
    case False
    then show ?thesis by (simp add: parseChars_quoteUnit)
  qed
next
  case (3 c d cs)
  show ?case
  proof (cases "isLeadSurrogate c")
    case lead: True
    then have c: "c < 65536" "32 \<le> c" "c \<noteq> 34" "c \<noteq> 92" by (auto simp: isLeadSurrogate_def)
    show ?thesis
    proof (cases "isTrailSurrogate d")
      case True
      then have d: "32 \<le> d" "d \<noteq> 34" "d \<noteq> 92" by (auto simp: isTrailSurrogate_def)
      have "parseChars (c # d # quoteUnits cs @ 34 # r) =
          consUnit c (consUnit d (parseChars (quoteUnits cs @ 34 # r)))"
        using c d by simp
      with lead True "3.IH"(1) show ?thesis by simp
    next
      case False
      with lead "3.IH"(2) c show ?thesis by (simp add: parseChars_unicodeEscape)
    qed
  next
    case nolead: False
    show ?thesis
    proof (cases "isTrailSurrogate c")
      case True
      then have "c < 65536" by (auto simp: isTrailSurrogate_def)
      with nolead True "3.IH"(3) show ?thesis by (simp add: parseChars_unicodeEscape)
    next
      case False
      with nolead "3.IH"(4) show ?thesis by (simp add: parseChars_quoteUnit)
    qed
  qed
qed

subsection \<open>Numbers\<close>

lemma digits_isDigit: "c \<in> set (digits n) \<Longrightarrow> isDigit c"
proof (induction n arbitrary: c rule: digits.induct)
  case (1 n)
  then show ?case
    using digits.simps [of n] by (auto simp: isDigit_def split: if_splits)
qed

lemma digits_nonempty: "digits n \<noteq> []"
  by (subst digits.simps) simp

lemma digitsValue_snoc: "digitsValue (ds @ [d]) = 10 * digitsValue ds + (d - 48)"
  by (simp add: digitsValue_def)

lemma digitsValue_digits: "digitsValue (digits n) = n"
proof (induction n rule: digits.induct)
  case (1 n)
  show ?case
  proof (cases "n < 10")
    case True
    then show ?thesis by (subst digits.simps) (simp add: digitsValue_def)
  next
    case False
    with 1 have "digitsValue (digits (n div 10)) = n div 10" by simp
    with False show ?thesis by (subst digits.simps) (simp add: digitsValue_snoc)
  qed
qed

lemma hd_digits: "hd (digits n) = 48 \<longleftrightarrow> n = 0"
proof (induction n rule: digits.induct)
  case (1 n)
  show ?case
  proof (cases "n < 10")
    case True
    then show ?thesis by (subst digits.simps) simp
  next
    case False
    with 1 have "hd (digits (n div 10)) = 48 \<longleftrightarrow> n div 10 = 0" by simp
    moreover have "n div 10 \<noteq> 0" using False by simp
    ultimately show ?thesis
      using False digits_nonempty [of "n div 10"] by (subst digits.simps) simp
  qed
qed

lemma digits_0: "digits 0 = [48]"
  by (subst digits.simps) simp

lemma parseInt_digits:
  assumes "r = [] \<or> \<not> isDigit (hd r)"
  shows "parseInt (digits n @ r) = Some (n, r)"
proof (cases "n = 0")
  case True
  then show ?thesis by (simp add: digits_0 parseInt_def)
next
  case False
  obtain c cs where d: "digits n = c # cs" using digits_nonempty [of n] by (cases "digits n") auto
  have c: "c \<noteq> 48" "isDigit c"
    using hd_digits [of n] False digits_isDigit [of c n] d by auto
  have all: "\<forall>x\<in>set (digits n). isDigit x" using digits_isDigit by blast
  have tw: "takeWhile isDigit (digits n @ r) = digits n"
    using assms all by (cases r) (simp_all add: takeWhile_append2 takeWhile_eq_all_conv [THEN iffD2])
  have dw: "dropWhile isDigit (digits n @ r) = r"
    using assms all by (cases r) (simp_all add: dropWhile_append2)
  have "parseInt (digits n @ r) =
      Some (digitsValue (takeWhile isDigit (digits n @ r)), dropWhile isDigit (digits n @ r))"
    using c d by (simp add: parseInt_def)
  then show ?thesis by (simp add: tw dw digitsValue_digits)
qed

lemma digits_inj: "digits m = digits n \<Longrightarrow> m = n"
  by (metis digitsValue_digits)

subsection \<open>Arrays\<close>

lemma endsValue_simps [simp]: "endsValue (44 # r)" "endsValue (93 # r)"
  by (simp_all add: endsValue_def)

lemma endsValue_notDigit: "endsValue r \<Longrightarrow> r = [] \<or> \<not> isDigit (hd r)"
  by (auto simp: endsValue_def isDigit_def)

lemma digits_Cons: "\<exists>c cs. digits n = c # cs \<and> isDigit c"
  using digits_nonempty [of n] digits_isDigit [of _ n] by (cases "digits n") auto

lemma parseValue_serialize:
  assumes "endsValue r"
  shows "parseValue (serializeJSONProperty v @ r) = Some (undefinedToNull v, r)"
proof (cases v)
  case Undefined
  then show ?thesis by (simp add: parseValue_def str_def undefinedToNull_def)
next
  case Null
  then show ?thesis by (simp add: parseValue_def str_def undefinedToNull_def)
next
  case (Num n)
  note nd = endsValue_notDigit [OF assms]
  show ?thesis
  proof (cases "n < 0")
    case True
    then show ?thesis
      using Num parseInt_digits [OF nd, of "nat (- n)"]
      by (simp add: parseValue_def numberToString_def undefinedToNull_def)
  next
    case False
    obtain c cs where d: "digits (nat n) = c # cs" "isDigit c" using digits_Cons by blast
    then have c: "c \<noteq> 34" "c \<noteq> 110" "c \<noteq> 45" by (auto simp: isDigit_def)
    have "parseValue (digits (nat n) @ r) =
        map_option (\<lambda>(n, r). (Num (int n), r)) (parseInt (digits (nat n) @ r))"
      using d c by (simp add: parseValue_def)
    then show ?thesis
      using Num False parseInt_digits [OF nd, of "nat n"]
      by (simp add: numberToString_def undefinedToNull_def)
  qed
next
  case (Str s)
  then show ?thesis
    by (simp add: parseValue_def quoteJSONString_def parseChars_quoteUnits undefinedToNull_def)
qed

lemma serialize_Cons: "\<exists>c cs. serializeJSONProperty v = c # cs \<and> \<not> isJSONWhiteSpace c"
proof (cases v)
  case (Num n)
  obtain c cs where "digits (nat n) = c # cs" "isDigit c" using digits_Cons by blast
  with Num show ?thesis
    by (auto simp: numberToString_def isJSONWhiteSpace_def isDigit_def)
qed (simp_all add: str_def quoteJSONString_def isJSONWhiteSpace_def)

lemma skipWs_serialize: "skipWs (serializeJSONProperty v @ r) = serializeJSONProperty v @ r"
  using serialize_Cons [of v] by (auto simp: skipWs_def)

lemma skipWs_ends [simp]: "skipWs (44 # r) = 44 # r" "skipWs (93 # r) = 93 # r"
  by (simp_all add: skipWs_def isJSONWhiteSpace_def)

lemma skipWs_open: "skipWs (91 # r) = 91 # r"
  by (simp add: skipWs_def isJSONWhiteSpace_def)

lemma skipWs_Nil [simp]: "skipWs [] = []"
  by (simp add: skipWs_def)

lemma parseElements_joinComma:
  "vs \<noteq> [] \<Longrightarrow>
   parseElements (joinComma (map serializeJSONProperty vs) @ 93 # r) =
     Some (map undefinedToNull vs, r)"
proof (induction vs rule: induct_list012)
  case 1
  then show ?case by simp
next
  case (2 v)
  show ?case
    by (subst parseElements.simps)
      (simp add: skipWs_serialize parseValue_serialize)
next
  case (3 v w vs)
  then have IH: "parseElements
        (joinComma (serializeJSONProperty w # map serializeJSONProperty vs) @ 93 # r) =
      Some (undefinedToNull w # map undefinedToNull vs, r)"
    by simp
  have "parseElements (joinComma (map serializeJSONProperty (v # w # vs)) @ 93 # r) =
      parseElements (serializeJSONProperty v @
        44 # (joinComma (map serializeJSONProperty (w # vs)) @ 93 # r))"
    by simp
  also have "\<dots> = Some (map undefinedToNull (v # w # vs), r)"
    by (subst parseElements.simps)
      (simp add: skipWs_serialize parseValue_serialize IH del: joinComma.simps)
  finally show ?case .
qed

lemma JSON_parse_stringify: "JSON_parse (JSON_stringify vs) = Inr (map undefinedToNull vs)"
proof (cases vs)
  case Nil
  then show ?thesis by (simp add: JSON_parse_def JSON_stringify_def skipWs_def isJSONWhiteSpace_def)
next
  case (Cons v ws)
  obtain c cs where c: "serializeJSONProperty v = c # cs" "\<not> isJSONWhiteSpace c"
    using serialize_Cons by blast
  have c93: "c \<noteq> 93"
  proof (cases v)
    case (Num n)
    obtain d ds where "digits (nat n) = d # ds" "isDigit d" using digits_Cons by blast
    with Num c show ?thesis by (auto simp: numberToString_def isDigit_def split: if_splits)
  qed (use c in \<open>auto simp: str_def quoteJSONString_def\<close>)
  obtain rest where j: "joinComma (map serializeJSONProperty vs) = c # rest"
    using Cons c by (cases ws) auto
  have pe: "parseElements (joinComma (map serializeJSONProperty vs) @ [93]) =
      Some (map undefinedToNull vs, [])"
    using parseElements_joinComma [of vs "[]"] Cons by simp
  have sk: "skipWs (c # rest @ [93]) = c # rest @ [93]"
    using c by (simp add: skipWs_def)
  show ?thesis
    unfolding JSON_parse_def JSON_stringify_def
    using pe c93 c(2) by (simp add: j sk skipWs_open)
qed

subsection \<open>Lines\<close>

lemma hexDigit_printable: "hexDigit n \<noteq> 10 \<and> hexDigit n \<noteq> 13"
  by (simp add: hexDigit_def)

lemma unicodeEscape_no_newline: "c \<in> set (unicodeEscape u) \<Longrightarrow> c \<noteq> 10 \<and> c \<noteq> 13"
  using hexDigit_printable by (auto simp: unicodeEscape_def)

lemma quoteUnit_no_newline: "c \<in> set (quoteUnit u) \<Longrightarrow> c \<noteq> 10 \<and> c \<noteq> 13"
  using unicodeEscape_no_newline [of c u] by (auto simp: quoteUnit_def split: if_splits)

lemma quoteUnits_no_newline: "c \<in> set (quoteUnits s) \<Longrightarrow> c \<noteq> 10 \<and> c \<noteq> 13"
proof (induction s rule: quoteUnits.induct)
  case 1
  then show ?case by simp
next
  case (2 u)
  then show ?case
    using unicodeEscape_no_newline [of c u] quoteUnit_no_newline [of c u]
    by (auto split: if_splits)
next
  case (3 u v s)
  then show ?case
    using unicodeEscape_no_newline [of c u] quoteUnit_no_newline [of c u]
    by (auto simp: isLeadSurrogate_def isTrailSurrogate_def split: if_splits)
qed

lemma serialize_no_newline: "c \<in> set (serializeJSONProperty v) \<Longrightarrow> c \<noteq> 10 \<and> c \<noteq> 13"
proof (cases v)
  case (Num n)
  assume "c \<in> set (serializeJSONProperty v)"
  with Num have "c = 45 \<or> isDigit c"
    using digits_isDigit by (auto simp: numberToString_def split: if_splits)
  then show ?thesis by (auto simp: isDigit_def)
next
  case (Str s)
  assume "c \<in> set (serializeJSONProperty v)"
  with Str show ?thesis using quoteUnits_no_newline [of c s] by (auto simp: quoteJSONString_def)
qed (auto simp: str_def)

lemma joinComma_no_newline:
  "(\<And>x c. x \<in> set xs \<Longrightarrow> c \<in> set x \<Longrightarrow> c \<noteq> 10 \<and> c \<noteq> 13) \<Longrightarrow>
   c \<in> set (joinComma xs) \<Longrightarrow> c \<noteq> 10 \<and> c \<noteq> 13"
proof (induction xs rule: joinComma.induct)
  case 1
  then show ?case by simp
next
  case (2 x)
  then show ?case by simp
next
  case (3 x y xs)
  from "3.prems"(2) have "c \<in> set x \<or> c = 44 \<or> c \<in> set (joinComma (y # xs))" by auto
  then show ?case
  proof (elim disjE)
    assume "c \<in> set x"
    then show ?thesis using "3.prems"(1) [of x c] by simp
  next
    assume "c = 44"
    then show ?thesis by simp
  next
    assume m: "c \<in> set (joinComma (y # xs))"
    have "c' \<noteq> 10 \<and> c' \<noteq> 13" if "z \<in> set (y # xs)" "c' \<in> set z" for z c'
      using "3.prems"(1) [of z c'] that by simp
    from "3.IH" [OF this m] show ?thesis .
  qed
qed

lemma stringify_no_newline: "c \<in> set (JSON_stringify vs) \<Longrightarrow> c \<noteq> 10 \<and> c \<noteq> 13"
proof -
  assume "c \<in> set (JSON_stringify vs)"
  then have "c = 91 \<or> c = 93 \<or> c \<in> set (joinComma (map serializeJSONProperty vs))"
    by (auto simp: JSON_stringify_def)
  then show ?thesis
    using joinComma_no_newline [of "map serializeJSONProperty vs" c] serialize_no_newline
    by auto
qed

lemma readLines_line:
  "(\<And>c. c \<in> set s \<Longrightarrow> c \<noteq> 10 \<and> c \<noteq> 13) \<Longrightarrow>
   readLines cur (s @ 10 # rest) = (cur @ s) # readLines [] rest"
proof (induction s arbitrary: cur)
  case Nil
  show ?case by simp
next
  case (Cons c s)
  then have "c \<noteq> 10" "c \<noteq> 13" by auto
  then show ?case using Cons by simp
qed

lemma readLines_stringified:
  "readLines [] (concat (map (\<lambda>vs. JSON_stringify vs @ [10]) vss)) = map JSON_stringify vss"
proof (induction vss)
  case Nil
  show ?case by simp
next
  case (Cons vs vss)
  have "readLines [] (JSON_stringify vs @ 10 # concat (map (\<lambda>vs. JSON_stringify vs @ [10]) vss)) =
      ([] @ JSON_stringify vs) # readLines [] (concat (map (\<lambda>vs. JSON_stringify vs @ [10]) vss))"
    by (rule readLines_line) (rule stringify_no_newline)
  with Cons show ?case by simp
qed

lemma undefinedToNull_id: "Undefined \<notin> set vs \<Longrightarrow> map undefinedToNull vs = vs"
  by (induction vs) (auto simp: undefinedToNull_def)

lemma record_file_roundtrip:
  "map JSON_parse (readLines [] (concat (map (\<lambda>(date, e). entryLine date e) des))) =
     map (\<lambda>(date, e). Inr (map undefinedToNull (entryValues date e))) des"
proof -
  have "readLines [] (concat (map (\<lambda>vs. JSON_stringify vs @ [10])
          (map (\<lambda>(date, e). entryValues date e) des))) =
      map JSON_stringify (map (\<lambda>(date, e). entryValues date e) des)"
    by (rule readLines_stringified)
  then show ?thesis
    by (simp add: comp_def entryLine_def case_prod_unfold JSON_parse_stringify)
qed

lemma entry_roundtrip:
  assumes "\<forall>(date, e)\<in>set des. position e \<noteq> Undefined \<and> artist e \<noteq> Undefined \<and> title e \<noteq> Undefined"
  shows "map JSON_parse (readLines [] (concat (map (\<lambda>(date, e). entryLine date e) des))) =
     map (\<lambda>(date, e). Inr (entryValues date e)) des"
proof -
  have "map undefinedToNull (entryValues date e) = entryValues date e" if "(date, e) \<in> set des"
    for date e
    using assms that by (intro undefinedToNull_id) (auto simp: entryValues_def)
  then show ?thesis unfolding record_file_roundtrip by (auto intro!: map_cong)
qed


section \<open>The ISO week calendar\<close>

subsection \<open>Years\<close>

lemma dayFromYear_mono: "y \<le> z \<Longrightarrow> dayFromYear y \<le> dayFromYear z"
proof (induction z rule: int_ge_induct)
  case base
  show ?case by simp
next
  case (step i)
  then show ?case using dayFromYear_less_Suc [of i] by simp
qed

lemma dayFromYear_strict: "y < z \<Longrightarrow> dayFromYear y < dayFromYear z"
  using dayFromYear_mono [of "y + 1" z] dayFromYear_less_Suc [of y] by simp

lemma yearDown_le: "dayFromYear (yearDown d y) \<le> d"
proof (induction d y rule: yearDown.induct)
  case (1 d y)
  then show ?case by (subst yearDown.simps) simp
qed

lemma yearUp_bounds:
  "dayFromYear y \<le> d \<Longrightarrow>
   dayFromYear (yearUp d y) \<le> d \<and> d < dayFromYear (yearUp d y + 1)"
proof (induction d y rule: yearUp.induct)
  case (1 d y)
  then show ?case by (subst (1 2) yearUp.simps) simp
qed

lemma yearFromDay_bounds:
  "dayFromYear (yearFromDay d) \<le> d \<and> d < dayFromYear (yearFromDay d + 1)"
  unfolding yearFromDay_def by (rule yearUp_bounds) (rule yearDown_le)

lemma yearFromDay_unique:
  assumes "dayFromYear y \<le> d" "d < dayFromYear (y + 1)"
  shows "yearFromDay d = y"
proof (rule ccontr)
  assume ne: "yearFromDay d \<noteq> y"
  note b = yearFromDay_bounds [of d]
  show False
  proof (cases "yearFromDay d < y")
    case True
    then have "dayFromYear (yearFromDay d + 1) \<le> dayFromYear y"
      by (intro dayFromYear_mono) simp
    with b assms show False by simp
  next
    case False
    with ne have "dayFromYear (y + 1) \<le> dayFromYear (yearFromDay d)"
      by (intro dayFromYear_mono) simp
    with b assms show False by simp
  qed
qed

subsection \<open>Weekdays\<close>

lemma isoWeekday_range: "1 \<le> isoWeekday d \<and> isoWeekday d \<le> 7"
proof -
  have "0 \<le> (d + 4) mod 7" "(d + 4) mod 7 < 7" by simp_all
  then show ?thesis by (auto simp: isoWeekday_def Let_def)
qed

lemma isoWeekday_cong: "\<exists>k. d + 4 - isoWeekday d = 7 * k"
proof -
  define q where "q = (d + 4) div 7"
  define r where "r = (d + 4) mod 7"
  have e: "d + 4 = 7 * q + r" unfolding q_def r_def by simp
  show ?thesis
  proof (cases "r = 0")
    case True
    then have "isoWeekday d = 7" by (simp add: isoWeekday_def r_def)
    with e True have "d + 4 - isoWeekday d = 7 * (q - 1)" by simp
    then show ?thesis ..
  next
    case False
    then have "isoWeekday d = r" by (simp add: isoWeekday_def r_def)
    with e have "d + 4 - isoWeekday d = 7 * q" by simp
    then show ?thesis ..
  qed
qed

lemma week_residue_unique:
  fixes a b :: int
  shows "1 \<le> a \<Longrightarrow> a \<le> 7 \<Longrightarrow> 1 \<le> b \<Longrightarrow> b \<le> 7 \<Longrightarrow> a - b = 7 * k \<Longrightarrow> a = b"
  by arith

lemma isoWeekday_unique:
  assumes "1 \<le> w" "w \<le> 7" "d + 4 - w = 7 * k"
  shows "isoWeekday d = w"
proof -
  obtain k' where k': "d + 4 - isoWeekday d = 7 * k'" using isoWeekday_cong by blast
  with assms(3) have "w - isoWeekday d = 7 * (k' - k)" by (simp add: algebra_simps)
  then show ?thesis
    using week_residue_unique [of w "isoWeekday d" "k' - k"] assms(1,2) isoWeekday_range [of d]
    by simp
qed

lemma isoWeekday_shift: "isoWeekday (d + 7 * n) = isoWeekday d"
proof -
  obtain k where "d + 4 - isoWeekday d = 7 * k" using isoWeekday_cong by blast
  then have "d + 7 * n + 4 - isoWeekday d = 7 * (k + n)" by (simp add: algebra_simps)
  then show ?thesis using isoWeekday_range [of d] isoWeekday_unique by blast
qed

lemma weekToGregorian_eq:
  "weekToGregorian \<lparr>weekYear = y, weekNumber = w, weekday = wd\<rparr> =
     dayFromYear y + 7 * w + wd - weekdayOfJan4 y - 4"
proof -
  have 1: "dayFromYear (y + 1) = dayFromYear y + daysInYear y" by (rule dayFromYear_Suc)
  have 2: "dayFromYear y = dayFromYear (y - 1) + daysInYear (y - 1)"
    using dayFromYear_Suc [of "y - 1"] by simp
  show ?thesis
    unfolding weekToGregorian_def Let_def weekdayOfJan4_def
    by (simp add: 1) (simp add: 2)
qed

lemma isoWeekday_weekToGregorian:
  assumes "1 \<le> wd" "wd \<le> 7"
  shows "isoWeekday (weekToGregorian \<lparr>weekYear = y, weekNumber = w, weekday = wd\<rparr>) = wd"
proof -
  obtain k where "dayFromYear y + 3 + 4 - weekdayOfJan4 y = 7 * k"
    unfolding weekdayOfJan4_def using isoWeekday_cong by blast
  then have "dayFromYear y + 7 * w + wd - weekdayOfJan4 y - 4 + 4 - wd = 7 * (k + w - 1)"
    by (simp add: algebra_simps)
  then show ?thesis
    unfolding weekToGregorian_eq using assms isoWeekday_unique by blast
qed

subsection \<open>Weeks of a year\<close>

lemma div_shift:
  fixes a :: int
  assumes "b \<noteq> 0"
  shows "(a - c * b) div b = a div b - c"
proof -
  have "(a + (- c) * b) div b = (- c) + a div b" using assms by (rule div_mult_self1)
  then show ?thesis by simp
qed

lemma mod_shift:
  fixes a :: int
  shows "(a - c * b) mod b = a mod b"
proof -
  have "(a + (- c) * b) mod b = a mod b" by (rule mod_mult_self1)
  then show ?thesis by simp
qed

lemma dayFromYear_Suc_formula:
  "dayFromYear (y + 1) + 3 - (y + y div 4 - y div 100 + y div 400) = 7 * (52 * y - 102737)"
proof -
  have 4: "(y + 1 - 1969) div 4 = y div 4 - 492" using div_shift [of 4 y 492] by simp
  have 100: "(y + 1 - 1901) div 100 = y div 100 - 19" using div_shift [of 100 y 19] by simp
  have 400: "(y + 1 - 1601) div 400 = y div 400 - 4" using div_shift [of 400 y 4] by simp
  define a where "a = y div 4"
  define b where "b = y div 100"
  define c where "c = y div 400"
  have "365 * (y + 1 - 1970) + (a - 492) - (b - 19) + (c - 4) + 3 - (y + a - b + c) =
      7 * (52 * y - 102737)"
    by simp
  then show ?thesis
    unfolding dayFromYear_def by (simp only: 4 100 400 a_def b_def c_def)
qed

lemma weekdayOfJan4_cong: "\<exists>m. dayFromYear y + 7 - weekdayOfJan4 y = 7 * m"
proof -
  obtain k where "dayFromYear y + 3 + 4 - isoWeekday (dayFromYear y + 3) = 7 * k"
    using isoWeekday_cong by blast
  then have "dayFromYear y + 7 - weekdayOfJan4 y = 7 * k"
    by (simp add: weekdayOfJan4_def)
  then show ?thesis ..
qed

lemma residue_iff:
  fixes w :: int
  assumes "1 \<le> w" "w \<le> 7" "0 \<le> p" "p < 7" "W = 7 * q + p" "D + 3 - W = 7 * k" "D + 7 - w = 7 * m"
  shows "p = 4 \<longleftrightarrow> w = 1" "p = 3 \<longleftrightarrow> w = 7"
  using assms by arith+

lemma weeksInWeekYear_iff:
  "weeksInWeekYear y = (if weekdayOfJan4 (y + 1) = 1 \<or> weekdayOfJan4 y = 7 then 53 else 52)"
proof -
  define W1 where "W1 = y + y div 4 - y div 100 + y div 400"
  define W2 where "W2 = (y - 1) + (y - 1) div 4 - (y - 1) div 100 + (y - 1) div 400"
  define p1 where "p1 = W1 mod 7"
  define p2 where "p2 = W2 mod 7"
  have p: "0 \<le> p1" "p1 < 7" "0 \<le> p2" "p2 < 7" by (simp_all add: p1_def p2_def)
  have W1: "W1 = 7 * (W1 div 7) + p1" and W2: "W2 = 7 * (W2 div 7) + p2"
    by (simp_all add: p1_def p2_def)
  have D1: "dayFromYear (y + 1) + 3 - W1 = 7 * (52 * y - 102737)"
    unfolding W1_def by (rule dayFromYear_Suc_formula)
  have D2: "dayFromYear y + 3 - W2 = 7 * (52 * (y - 1) - 102737)"
    unfolding W2_def using dayFromYear_Suc_formula [of "y - 1"] by simp
  obtain m1 where m1: "dayFromYear (y + 1) + 7 - weekdayOfJan4 (y + 1) = 7 * m1"
    using weekdayOfJan4_cong by blast
  obtain m2 where m2: "dayFromYear y + 7 - weekdayOfJan4 y = 7 * m2"
    using weekdayOfJan4_cong by blast
  have r1: "1 \<le> weekdayOfJan4 (y + 1)" "weekdayOfJan4 (y + 1) \<le> 7"
    and r2: "1 \<le> weekdayOfJan4 y" "weekdayOfJan4 y \<le> 7"
    unfolding weekdayOfJan4_def using isoWeekday_range by blast+
  have a: "p1 = 4 \<longleftrightarrow> weekdayOfJan4 (y + 1) = 1"
    by (rule residue_iff(1) [OF r1 p(1,2) W1 D1 m1])
  have b: "p2 = 3 \<longleftrightarrow> weekdayOfJan4 y = 7"
    by (rule residue_iff(2) [OF r2 p(3,4) W2 D2 m2])
  have "weeksInWeekYear y = (if p1 = 4 \<or> p2 = 3 then 53 else 52)"
    unfolding weeksInWeekYear_def Let_def p1_def p2_def W1_def W2_def by (rule refl)
  then show ?thesis by (simp only: a b)
qed

lemma weeks_aux:
  fixes w w' :: int
  assumes "1 \<le> w" "w \<le> 7" "1 \<le> w'" "w' \<le> 7" "n = 365 \<or> n = 366"
    "A + 7 - w = 7 * m" "A + n + 7 - w' = 7 * m'"
  shows "n - w' + w = 7 * (if w' = 1 \<or> w = 7 then 53 else 52)"
  using assms by arith

lemma saturday1_eq: "saturday1 y = dayFromYear y + 9 - weekdayOfJan4 y"
  by (simp add: saturday1_def weekToGregorian_eq)

lemma saturday1_Suc: "saturday1 (y + 1) = saturday1 y + 7 * weeksInWeekYear y"
proof -
  obtain m' where m1: "dayFromYear (y + 1) + 7 - weekdayOfJan4 (y + 1) = 7 * m'"
    using weekdayOfJan4_cong by blast
  obtain m where m2: "dayFromYear y + 7 - weekdayOfJan4 y = 7 * m"
    using weekdayOfJan4_cong by blast
  have r1: "1 \<le> weekdayOfJan4 (y + 1)" "weekdayOfJan4 (y + 1) \<le> 7"
    and r2: "1 \<le> weekdayOfJan4 y" "weekdayOfJan4 y \<le> 7"
    unfolding weekdayOfJan4_def using isoWeekday_range by blast+
  have n: "daysInYear y = 365 \<or> daysInYear y = 366" by (simp add: daysInYear_def)
  have S: "dayFromYear (y + 1) = dayFromYear y + daysInYear y" by (rule dayFromYear_Suc)
  have "daysInYear y - weekdayOfJan4 (y + 1) + weekdayOfJan4 y =
      7 * (if weekdayOfJan4 (y + 1) = 1 \<or> weekdayOfJan4 y = 7 then 53 else 52)"
    by (rule weeks_aux [OF r2 r1 n m2 m1 [unfolded S]])
  then show ?thesis
    unfolding saturday1_eq weeksInWeekYear_iff S by (simp add: algebra_simps)
qed

lemma div7:
  fixes q r :: int
  shows "0 \<le> r \<Longrightarrow> r < 7 \<Longrightarrow> (7 * q + r) div 7 = q"
  by simp

lemma gregorianToWeek_eval:
  assumes "yearFromDay d = yr" "isoWeekday d = wd" "(d - dayFromYear yr + 1 - wd + 10) div 7 = wn"
  shows "gregorianToWeek d =
     (if wn < 1 then \<lparr>weekYear = yr - 1, weekNumber = weeksInWeekYear (yr - 1), weekday = wd\<rparr>
      else if wn > weeksInWeekYear yr then \<lparr>weekYear = yr + 1, weekNumber = 1, weekday = wd\<rparr>
      else \<lparr>weekYear = yr, weekNumber = wn, weekday = wd\<rparr>)"
  unfolding gregorianToWeek_def ordinal_def Let_def by (simp only: assms)

lemma weeksInWeekYear_cases: "weeksInWeekYear y = 52 \<or> weeksInWeekYear y = 53"
  by (simp add: weeksInWeekYear_iff)

lemma isoWeekday_saturday: "isoWeekday (saturday1 y + 7 * k) = 6"
  unfolding isoWeekday_shift saturday1_def by (rule isoWeekday_weekToGregorian) simp_all

lemma last_week_aux:
  fixes k N w' :: int
  assumes "k < N" "1 \<le> w'" "A' \<le> S + 7 * k" "S + 7 * N = A' + 9 - w'"
  shows "k + 1 = N" "S + 7 * k - A' = 0 \<or> S + 7 * k - A' = 1"
  using assms by arith+

lemma gregorianToWeek_saturday:
  assumes k: "0 \<le> k" "k < weeksInWeekYear y"
  shows "gregorianToWeek (saturday1 y + 7 * k) = \<lparr>weekYear = y, weekNumber = k + 1, weekday = 6\<rparr>"
proof -
  define d where "d = saturday1 y + 7 * k"
  define w where "w = weekdayOfJan4 y"
  define w' where "w' = weekdayOfJan4 (y + 1)"
  define N where "N = weeksInWeekYear y"
  have w: "1 \<le> w" "w \<le> 7" and w': "1 \<le> w'" "w' \<le> 7"
    unfolding w_def w'_def weekdayOfJan4_def using isoWeekday_range by blast+
  have N: "N = 52 \<or> N = 53" unfolding N_def by (rule weeksInWeekYear_cases)
  have S: "saturday1 y = dayFromYear y + 9 - w" unfolding w_def by (rule saturday1_eq)
  have S': "saturday1 y + 7 * N = dayFromYear (y + 1) + 9 - w'"
    unfolding w'_def N_def using saturday1_Suc [of y] saturday1_eq [of "y + 1"] by simp
  have wd: "isoWeekday d = 6" unfolding d_def by (rule isoWeekday_saturday)
  have lo: "dayFromYear y \<le> d" unfolding d_def S using w k by simp
  have kN: "k < N" using k by (simp add: N_def)
  show ?thesis
  proof (cases "d < dayFromYear (y + 1)")
    case True
    with lo have yr: "yearFromDay d = y" by (rule yearFromDay_unique)
    have "d - dayFromYear y + 1 - 6 + 10 = 7 * (k + 1) + (7 - w)"
      unfolding d_def S by simp
    then have wn: "(d - dayFromYear y + 1 - 6 + 10) div 7 = k + 1"
      using div7 [of "7 - w" "k + 1"] w by simp
    show ?thesis
      using gregorianToWeek_eval [OF yr wd wn] k by (simp add: d_def)
  next
    case False
    then have ge: "dayFromYear (y + 1) \<le> saturday1 y + 7 * k" by (simp add: d_def)
    note aux = last_week_aux [OF kN w'(1) ge S']
    have "d < dayFromYear (y + 1) + daysInYear (y + 1)"
      using aux(2) by (auto simp: d_def daysInYear_def)
    then have "d < dayFromYear (y + 1 + 1)" by (simp only: dayFromYear_Suc)
    with False have yr: "yearFromDay d = y + 1" by (intro yearFromDay_unique) simp_all
    have wn: "(d - dayFromYear (y + 1) + 1 - 6 + 10) div 7 = 0"
      using aux(2) by (auto simp: d_def)
    show ?thesis
      using gregorianToWeek_eval [OF yr wd wn] aux(1) by (simp add: d_def N_def)
  qed
qed

subsection \<open>The label of a week date\<close>

lemma length_digits_step: "\<not> n < 10 \<Longrightarrow> length (digits n) = Suc (length (digits (n div 10)))"
  by (subst digits.simps) simp

lemma length_digits_1: "n < 10 \<Longrightarrow> length (digits n) = 1"
  by (subst digits.simps) simp

lemma length_digits_2: "10 \<le> n \<Longrightarrow> n < 100 \<Longrightarrow> length (digits n) = 2"
proof -
  assume a: "10 \<le> n" "n < 100"
  then have "n div 10 < 10" by (simp add: less_mult_imp_div_less)
  then have "length (digits (n div 10)) = 1" by (rule length_digits_1)
  moreover have "length (digits n) = Suc (length (digits (n div 10)))"
    by (rule length_digits_step) (use a in simp)
  ultimately show ?thesis by simp
qed

lemma length_digits_3: "100 \<le> n \<Longrightarrow> n < 1000 \<Longrightarrow> length (digits n) = 3"
proof -
  assume a: "100 \<le> n" "n < 1000"
  then have "n div 10 < 100" by (simp add: less_mult_imp_div_less)
  moreover have "10 \<le> n div 10" using a(1) div_le_mono [of 100 n 10] by simp
  ultimately have "length (digits (n div 10)) = 2" by (intro length_digits_2)
  moreover have "length (digits n) = Suc (length (digits (n div 10)))"
    by (rule length_digits_step) (use a in simp)
  ultimately show ?thesis by simp
qed

lemma length_digits_4: "1000 \<le> n \<Longrightarrow> n < 10000 \<Longrightarrow> length (digits n) = 4"
proof -
  assume a: "1000 \<le> n" "n < 10000"
  then have "n div 10 < 1000" by (simp add: less_mult_imp_div_less)
  moreover have "100 \<le> n div 10" using a(1) div_le_mono [of 1000 n 10] by simp
  ultimately have "length (digits (n div 10)) = 3" by (intro length_digits_3)
  moreover have "length (digits n) = Suc (length (digits (n div 10)))"
    by (rule length_digits_step) (use a in simp)
  ultimately show ?thesis by simp
qed

lemma digits_1961: "digits 1961 = str ''1961''"
  by (simp add: digits.simps str_def)

lemma digits_52: "digits 52 = str ''52''"
  by (simp add: digits.simps str_def)

lemma digits_6: "digits 6 = str ''6''"
  by (simp add: digits.simps str_def)

lemma padStart_4: "1000 \<le> y \<Longrightarrow> y \<le> 9999 \<Longrightarrow> padStart 4 y = digits (nat y)"
  using length_digits_4 [of "nat y"] by (simp add: padStart_def)

lemma padStart_2:
  "1 \<le> w \<Longrightarrow> w \<le> 53 \<Longrightarrow>
   padStart 2 w = (if w < 10 then 48 # digits (nat w) else digits (nat w))"
  using length_digits_2 [of "nat w"] length_digits_1 [of "nat w"]
  by (auto simp: padStart_def numeral_2_eq_2)

lemma length_padStart_2: "1 \<le> w \<Longrightarrow> w \<le> 53 \<Longrightarrow> length (padStart 2 w) = 2"
  using length_digits_2 [of "nat w"] length_digits_1 [of "nat w"]
  by (auto simp: padStart_2)

lemma padStart_2_eq_52: "1 \<le> w \<Longrightarrow> w \<le> 53 \<Longrightarrow> padStart 2 w = str ''52'' \<longleftrightarrow> w = 52"
proof
  assume w: "1 \<le> w" "w \<le> 53" and e: "padStart 2 w = str ''52''"
  show "w = 52"
  proof (cases "w < 10")
    case True
    with w e show ?thesis by (simp add: padStart_2 str_def)
  next
    case False
    with w e have "digits (nat w) = digits 52" by (simp add: padStart_2 digits_52)
    then have "nat w = 52" by (rule digits_inj)
    then show ?thesis by simp
  qed
next
  assume "w = 52"
  then show "padStart 2 w = str ''52''" by (simp add: padStart_def digits_52) (simp add: str_def)
qed

lemma weekDate_format_eq:
  assumes "1000 \<le> y" "y \<le> 9999" "1 \<le> w" "w \<le> 53"
  shows "padStart 4 y @ str ''-W'' @ padStart 2 w @ str ''-'' @ numberToString 6 = str ''1961-W52-6''
     \<longleftrightarrow> y = 1961 \<and> w = 52"
proof -
  have split: "str ''1961-W52-6'' = str ''1961'' @ str ''-W'' @ str ''52'' @ str ''-'' @ str ''6''"
    by (simp add: str_def)
  have l4: "length (padStart 4 y) = length (str ''1961'')"
    using assms length_digits_4 [of "nat y"] by (simp add: padStart_4 str_def)
  have l2: "length (padStart 2 w) = length (str ''52'')"
    using assms by (simp add: length_padStart_2 str_def)
  have y: "padStart 4 y = str ''1961'' \<longleftrightarrow> y = 1961"
  proof
    assume "padStart 4 y = str ''1961''"
    then have "digits (nat y) = digits 1961" using assms by (simp add: padStart_4 digits_1961)
    then have "nat y = 1961" by (rule digits_inj)
    then show "y = 1961" by simp
  next
    assume "y = 1961"
    then show "padStart 4 y = str ''1961''" by (simp add: padStart_4 digits_1961)
  qed
  show ?thesis
    unfolding split
    by (simp add: l4 l2 y padStart_2_eq_52 assms numberToString_def digits_6)
qed


section \<open>Orchestrator: the week-ending dates\<close>

lemma weeksFrom_upt:
  "a \<le> n \<Longrightarrow> weeksFrom (S + 7 * int a) (S + 7 * int n) = map (\<lambda>k. S + 7 * int k) [a..<n]"
proof (induction "n - a" arbitrary: a)
  case 0
  then have "a = n" by simp
  then show ?case by (subst weeksFrom.simps) simp
next
  case (Suc m)
  then have lt: "a < n" and m: "m = n - Suc a" by simp_all
  have step: "S + 7 * int a + 7 = S + 7 * int (Suc a)" by simp
  have "weeksFrom (S + 7 * int a) (S + 7 * int n) =
      (S + 7 * int a) # weeksFrom (S + 7 * int (Suc a)) (S + 7 * int n)"
    using lt by (subst weeksFrom.simps) (simp only: step, simp)
  also have "weeksFrom (S + 7 * int (Suc a)) (S + 7 * int n) = map (\<lambda>k. S + 7 * int k) [Suc a..<n]"
    using Suc.hyps(1) [OF m] lt by simp
  finally show ?case using lt by (simp add: upt_conv_Cons)
qed


lemma fromISOWeekDate_week1:
  "1000 \<le> y \<Longrightarrow> y \<le> 9999 \<Longrightarrow> fromISOWeekDate y 1 6 = Some (saturday1 y)"
  using weeksInWeekYear_cases [of y] by (auto simp: fromISOWeekDate_def saturday1_def)

lemma fromISOWeekDate_week31:
  "1000 \<le> y \<Longrightarrow> y \<le> 9999 \<Longrightarrow> fromISOWeekDate y 31 6 = Some (saturday1 y + 7 * int 30)"
  using weeksInWeekYear_cases [of y]
  by (auto simp: fromISOWeekDate_def saturday1_def weekToGregorian_eq)

lemma toISOWeekDate_saturday:
  assumes "1000 \<le> y" "y \<le> 9999" "int k < weeksInWeekYear y"
  shows "toISOWeekDate (saturday1 y + 7 * int k) = str ''1961-W52-6'' \<longleftrightarrow> y = 1961 \<and> k = 51"
proof -
  have g: "gregorianToWeek (saturday1 y + 7 * int k) =
      \<lparr>weekYear = y, weekNumber = int k + 1, weekday = 6\<rparr>"
    using assms by (intro gregorianToWeek_saturday) simp_all
  have w: "1 \<le> int k + 1" "int k + 1 \<le> 53"
    using assms(3) weeksInWeekYear_cases [of y] by auto
  have "toISOWeekDate (saturday1 y + 7 * int k) =
      padStart 4 y @ str ''-W'' @ padStart 2 (int k + 1) @ str ''-'' @ numberToString 6"
    by (simp add: toISOWeekDate_def g)
  then show ?thesis
    using weekDate_format_eq [OF assms(1,2) w] by auto
qed

lemma saturdayOfWeek_eq: "saturdayOfWeek y (Suc k) = saturday1 y + 7 * int k"
  by (simp add: saturdayOfWeek_def saturday1_def weekToGregorian_eq)

lemma weekEndingDatesA_eq:
  assumes "1000 \<le> y" "y \<le> 9998"
  shows "weekEndingDatesA y = Some (map (saturdayOfWeek y) (keptWeeks y))"
proof -
  define N where "N = nat (weeksInWeekYear y)"
  define a where "a = firstWeek y - 1"
  have N: "weeksInWeekYear y = int N" "N = 52 \<or> N = 53"
    using weeksInWeekYear_cases [of y] by (auto simp: N_def)
  have aN: "a \<le> N" using N by (auto simp: a_def firstWeek_def)
  have dFrom: "fromISOWeekDate y (if y = 1958 then 31 else 1) 6 = Some (saturday1 y + 7 * int a)"
    using assms fromISOWeekDate_week1 [of y] fromISOWeekDate_week31 [of y]
    by (auto simp: a_def firstWeek_def)
  have dTo: "fromISOWeekDate (y + 1) 1 6 = Some (saturday1 y + 7 * int N)"
    using assms fromISOWeekDate_week1 [of "y + 1"] by (simp add: saturday1_Suc N)
  have keep: "toISOWeekDate (saturday1 y + 7 * int k) \<noteq> str ''1961-W52-6'' \<longleftrightarrow>
      \<not> (y = 1961 \<and> Suc k = 52)" if "k < N" for k
    using toISOWeekDate_saturday [of y k] assms that N by simp
  have "filter (\<lambda>date. toISOWeekDate date \<noteq> str ''1961-W52-6'')
          (map (\<lambda>k. saturday1 y + 7 * int k) [a..<N]) =
        map (\<lambda>k. saturday1 y + 7 * int k) (filter (\<lambda>k. \<not> (y = 1961 \<and> Suc k = 52)) [a..<N])"
    unfolding filter_map comp_def
    by (rule arg_cong [where f = "map _"], rule filter_cong) (simp_all add: keep)
  also have "\<dots> = map (saturdayOfWeek y) (map Suc (filter (\<lambda>k. \<not> (y = 1961 \<and> Suc k = 52)) [a..<N]))"
    by (simp add: saturdayOfWeek_eq comp_def)
  also have "map Suc (filter (\<lambda>k. \<not> (y = 1961 \<and> Suc k = 52)) [a..<N]) =
      filter (\<lambda>w. \<not> (y = 1961 \<and> w = 52)) (map Suc [a..<N])"
    by (simp add: filter_map comp_def)
  also have "map Suc [a..<N] = [firstWeek y..<Suc N]"
    by (simp add: map_Suc_upt a_def firstWeek_def del: upt_Suc)
  finally have "filter (\<lambda>date. toISOWeekDate date \<noteq> str ''1961-W52-6'')
          (weeksFrom (saturday1 y + 7 * int a) (saturday1 y + 7 * int N)) =
        map (saturdayOfWeek y) (keptWeeks y)"
    using weeksFrom_upt [OF aN, of "saturday1 y"] by (simp add: keptWeeks_def N_def)
  then show ?thesis
    unfolding weekEndingDatesA_def by (simp only: dFrom dTo) simp
qed









section \<open>Loader\<close>

lemma insertLines_ok:
  "insertLines c a ls d = (None, d') \<Longrightarrow> pending d = Some p \<Longrightarrow>
   \<exists>rows. map (rowOf c) ls = map Some rows \<and> table d' = table d \<and> pending d' = Some (p @ rows)"
proof (induction ls arbitrary: d p)
  case Nil
  then show ?case by simp
next
  case (Cons l ls)
  from Cons.prems obtain vals d1 where
    v: "JSON_parse l = Inr vals"
    and q: "queryInsert a (map prepareValue (c vals)) d = Inr d1"
    and rest: "insertLines c a ls d1 = (None, d')"
    by (auto split: sum.splits)
  from q Cons.prems(2) have d1: "table d1 = table d"
    "pending d1 = Some (p @ [map prepareValue (c vals)])"
    by (auto simp: queryInsert_def split: if_splits)
  from Cons.IH [OF rest d1(2)] obtain rows where
    "map (rowOf c) ls = map Some rows" "table d' = table d1"
    "pending d' = Some ((p @ [map prepareValue (c vals)]) @ rows)"
    by blast
  with v d1 have "map (rowOf c) (l # ls) = map Some (map prepareValue (c vals) # rows)
      \<and> table d' = table d \<and> pending d' = Some (p @ map prepareValue (c vals) # rows)"
    by (simp add: rowOf_def)
  then show ?case by blast
qed

lemma insertLines_error:
  "insertLines c a ls d = (Some e, d') \<Longrightarrow> pending d = Some p \<Longrightarrow>
   table d' = table d \<and> pending d' \<noteq> None
   \<and> (\<exists>k rows. k < length ls \<and> map (rowOf c) (take k ls) = map Some rows
         \<and> failsWith c a (table d @ p @ rows) (ls ! k) e)"
proof (induction ls arbitrary: d p)
  case Nil
  then show ?case by simp
next
  case (Cons l ls)
  show ?case
  proof (cases "JSON_parse l")
    case (Inl e')
    with Cons.prems have "e = e'" "d' = d" by simp_all
    moreover have "0 < length (l # ls) \<and> map (rowOf c) (take 0 (l # ls)) = map Some []
        \<and> failsWith c a (table d @ p @ []) ((l # ls) ! 0) e'"
      using Inl by (simp add: failsWith_def)
    ultimately show ?thesis using Cons.prems(2) by blast
  next
    case (Inr vals)
    show ?thesis
    proof (cases "a (table d @ p) (map prepareValue (c vals))")
      case False
      with Inr Cons.prems have "e = DatabaseError" "d' = d"
        by (simp_all add: queryInsert_def)
      moreover have "0 < length (l # ls) \<and> map (rowOf c) (take 0 (l # ls)) = map Some []
          \<and> failsWith c a (table d @ p @ []) ((l # ls) ! 0) DatabaseError"
        using Inr False by (simp add: failsWith_def)
      ultimately show ?thesis using Cons.prems(2) by blast
    next
      case True
      define r where "r = map prepareValue (c vals)"
      define d1 where "d1 = d\<lparr>pending := Some (p @ [r])\<rparr>"
      have q: "queryInsert a r d = Inr d1"
        using True Cons.prems(2) by (simp add: queryInsert_def r_def d1_def)
      with Inr Cons.prems(1) have rest: "insertLines c a ls d1 = (Some e, d')"
        by (simp add: r_def)
      have p1: "pending d1 = Some (p @ [r])" by (simp add: d1_def)
      from Cons.IH [OF rest p1] obtain k rows where
        t: "table d' = table d1" "pending d' \<noteq> None"
        and k: "k < length ls" "map (rowOf c) (take k ls) = map Some rows"
          "failsWith c a (table d1 @ (p @ [r]) @ rows) (ls ! k) e"
        by blast
      have "Suc k < length (l # ls) \<and> map (rowOf c) (take (Suc k) (l # ls)) = map Some (r # rows)
          \<and> failsWith c a (table d @ p @ r # rows) ((l # ls) ! Suc k) e"
        using k Inr by (simp add: rowOf_def r_def d1_def)
      then have "\<exists>k rows. k < length (l # ls)
          \<and> map (rowOf c) (take k (l # ls)) = map Some rows
          \<and> failsWith c a (table d @ p @ rows) ((l # ls) ! k) e"
        by blast
      moreover have "table d' = table d" "pending d' \<noteq> None"
        using t by (simp_all add: d1_def)
      ultimately show ?thesis by blast
    qed
  qed
qed

lemma insertLines_parse_error:
  "l \<in> set ls \<Longrightarrow> JSON_parse l = Inl e0 \<Longrightarrow> fst (insertLines c a ls d) \<noteq> None"
proof (induction ls arbitrary: d)
  case Nil
  then show ?case by simp
next
  case (Cons x ls)
  show ?case
  proof (cases "x = l")
    case True
    with Cons.prems show ?thesis by simp
  next
    case False
    with Cons.prems have "l \<in> set ls" by simp
    from Cons.IH [OF this Cons.prems(2)] show ?thesis
      by (auto split: sum.splits)
  qed
qed

lemma storeWith_all_or_nothing:
  assumes "store = storeWith correction"
    and "fsys jsonlFileName = Some content" and "pending d = None"
  shows "pending (st_db (store accepts fsys jsonlFileName d)) = None
    \<and> (st_raised (store accepts fsys jsonlFileName d) = None \<longrightarrow>
          (\<exists>rows. map (rowOf correction) (readLines [] content) = map Some rows
             \<and> table (st_db (store accepts fsys jsonlFileName d)) = table d @ rows))
    \<and> (\<forall>e. st_raised (store accepts fsys jsonlFileName d) = Some e \<longrightarrow>
          table (st_db (store accepts fsys jsonlFileName d)) = table d
          \<and> (\<exists>k rows. k < length (readLines [] content)
                \<and> map (rowOf correction) (take k (readLines [] content)) = map Some rows
                \<and> failsWith correction accepts (table d @ rows) (readLines [] content ! k) e))
    \<and> ((\<exists>l\<in>set (readLines [] content). JSON_parse l = Inl SyntaxError) \<longrightarrow>
          st_raised (store accepts fsys jsonlFileName d) \<noteq> None
          \<and> table (st_db (store accepts fsys jsonlFileName d)) = table d)"
proof -
  define ls where "ls = readLines [] content"
  note st = assms(1)
  have b: "pending (queryBegin d) = Some []" "table (queryBegin d) = table d"
    by (simp_all add: queryBegin_def)
  obtain r d' where run: "insertLines correction accepts ls (queryBegin d) = (r, d')"
    by (cases "insertLines correction accepts ls (queryBegin d)") auto
  have res: "store accepts fsys jsonlFileName d =
      (case r of None \<Rightarrow> \<lparr>st_raised = None, st_logged = [], st_db = queryCommit d'\<rparr>
       | Some err \<Rightarrow> \<lparr>st_raised = Some err, st_logged = [], st_db = queryRollback d'\<rparr>)"
    using assms(2) run by (simp add: st storeWith_def ls_def split: option.splits)
  have pe: "(\<exists>l\<in>set ls. JSON_parse l = Inl SyntaxError) \<longrightarrow> r \<noteq> None"
    using insertLines_parse_error [of _ ls SyntaxError correction accepts "queryBegin d"] run
    by auto
  show ?thesis
  proof (cases r)
    case None
    from insertLines_ok [OF run [unfolded None] b(1)] obtain rows where
      "map (rowOf correction) ls = map Some rows" "table d' = table d" "pending d' = Some rows"
      using b(2) by auto
    then show ?thesis
      using None pe unfolding res ls_def [symmetric]
      by (simp add: queryCommit_def)
  next
    case (Some e)
    from insertLines_error [OF run [unfolded Some] b(1)] obtain k rows where
      "table d' = table d" "pending d' \<noteq> None" "k < length ls"
      "map (rowOf correction) (take k ls) = map Some rows"
      "failsWith correction accepts (table d @ rows) (ls ! k) e"
      using b(2) by auto
    then show ?thesis
      using Some unfolding res ls_def [symmetric]
      by (auto simp: queryRollback_def)
  qed
qed

text \<open>
  C2. \<^verbatim>\<open>store\<close> of either version, on a record file that exists and a connection
  with no open transaction, ends with no open transaction and in one of two ways.
  Either nothing is raised: then every line parsed and the table has gained the rows
  of all lines, in order. Or an error is raised: then the table is what it was, and
  the error is that of the first line that fails (it does not parse, or the database
  refuses its row), all lines before it having parsed. A line that does not parse
  anywhere in the file always gives the second case.
\<close>

theorem store_all_or_nothing:
  assumes "store = storeA \<and> correction = correctionA \<or> store = storeB \<and> correction = correctionB"
    and "fsys jsonlFileName = Some content" and "pending d = None"
  shows "pending (st_db (store accepts fsys jsonlFileName d)) = None
    \<and> (st_raised (store accepts fsys jsonlFileName d) = None \<longrightarrow>
          (\<exists>rows. map (rowOf correction) (readLines [] content) = map Some rows
             \<and> table (st_db (store accepts fsys jsonlFileName d)) = table d @ rows))
    \<and> (\<forall>e. st_raised (store accepts fsys jsonlFileName d) = Some e \<longrightarrow>
          table (st_db (store accepts fsys jsonlFileName d)) = table d
          \<and> (\<exists>k rows. k < length (readLines [] content)
                \<and> map (rowOf correction) (take k (readLines [] content)) = map Some rows
                \<and> failsWith correction accepts (table d @ rows) (readLines [] content ! k) e))
    \<and> ((\<exists>l\<in>set (readLines [] content). JSON_parse l = Inl SyntaxError) \<longrightarrow>
          st_raised (store accepts fsys jsonlFileName d) \<noteq> None
          \<and> table (st_db (store accepts fsys jsonlFileName d)) = table d)"
  using assms storeWith_all_or_nothing [where store = store and correction = correction
      and fsys = fsys and jsonlFileName = jsonlFileName and content = content and d = d
      and accepts = accepts]
  by (auto simp: storeA_def storeB_def)

lemma emptyDb_simps: "table emptyDb = []" "pending emptyDb = None"
  by (simp_all add: emptyDb_def)

lemma parse_literalLine:
  "JSON_parse literalLine =
     Inr [Num 1984, Num 7, Str (str ''99''), Str (str ''Some Artist''),
          Str (str ''Remember The Nights'')]"
  by code_simp

lemma parse_oops: "JSON_parse (str ''oops'') = Inl SyntaxError"
  by code_simp

lemma readLines_literal: "readLines [] literalContent = [literalLine]"
  by code_simp

lemma readLines_broken: "readLines [] brokenContent = [literalLine, str ''oops'']"
  by code_simp

lemma storeA_literalFile:
  "storeA acceptAll literalFile (JsonlFile 1984) emptyDb =
     \<lparr>st_raised = None, st_logged = [],
      st_db = \<lparr>table = [[Some (str ''1984''), Some (str ''7''), Some (str ''87''),
                          Some (str ''Some Artist''), Some (str ''Remember The Nights'')]],
               pending = None\<rparr>\<rparr>"
  by code_simp

lemma storeB_literalFile:
  "storeB acceptAll literalFile (JsonlFile 1984) emptyDb =
     \<lparr>st_raised = None, st_logged = [],
      st_db = \<lparr>table = [[Some (str ''1984''), Some (str ''7''), Some (str ''99''),
                          Some (str ''Some Artist''), Some (str ''Remember The Nights'')]],
               pending = None\<rparr>\<rparr>"
  by code_simp

lemma storeA_brokenFile:
  "storeA acceptAll brokenFile (JsonlFile 1984) emptyDb =
     \<lparr>st_raised = Some SyntaxError, st_logged = [], st_db = emptyDb\<rparr>"
  by code_simp

lemma storeB_brokenFile:
  "storeB acceptAll brokenFile (JsonlFile 1984) emptyDb =
     \<lparr>st_raised = Some SyntaxError, st_logged = [], st_db = emptyDb\<rparr>"
  by code_simp

theorem store_all_or_nothing_witness:
  "brokenFile (JsonlFile 1984) = Some (brokenContent)
   \<and> pending emptyDb = None
   \<and> JSON_parse (readLines [] (brokenContent) ! 1) = Inl SyntaxError
   \<and> st_raised (storeA acceptAll brokenFile (JsonlFile 1984) emptyDb) = Some SyntaxError
   \<and> table (st_db (storeA acceptAll brokenFile (JsonlFile 1984) emptyDb)) = []
   \<and> pending (st_db (storeA acceptAll brokenFile (JsonlFile 1984) emptyDb)) = None
   \<and> st_raised (storeB acceptAll brokenFile (JsonlFile 1984) emptyDb) = Some SyntaxError
   \<and> table (st_db (storeB acceptAll brokenFile (JsonlFile 1984) emptyDb)) = []
   \<and> st_raised (storeA acceptAll literalFile (JsonlFile 1984) emptyDb) = None
   \<and> length (table (st_db (storeA acceptAll literalFile (JsonlFile 1984) emptyDb))) = 1"
proof -
  have f: "brokenFile (JsonlFile 1984) = Some (brokenContent)"
    by (simp add: brokenFile_def)
  have g: "literalFile (JsonlFile 1984) = Some (literalContent)"
    by (simp add: literalFile_def)
  have p: "pending emptyDb = None" by (simp add: emptyDb_simps)
  have bad: "\<exists>l\<in>set (readLines [] (brokenContent)).
      JSON_parse l = Inl SyntaxError"
    by (simp add: readLines_broken parse_oops)
  note A = store_all_or_nothing [where store = storeA and correction = correctionA
      and fsys = brokenFile and jsonlFileName = "JsonlFile 1984" and content = brokenContent
      and d = emptyDb and accepts = acceptAll]
  note B = store_all_or_nothing [where store = storeB and correction = correctionB
      and fsys = brokenFile and jsonlFileName = "JsonlFile 1984" and content = brokenContent
      and d = emptyDb and accepts = acceptAll]
  note C = store_all_or_nothing [where store = storeA and correction = correctionA
      and fsys = literalFile and jsonlFileName = "JsonlFile 1984" and content = literalContent
      and d = emptyDb and accepts = acceptAll]
  have "st_raised (storeA acceptAll brokenFile (JsonlFile 1984) emptyDb) \<noteq> None"
    "table (st_db (storeA acceptAll brokenFile (JsonlFile 1984) emptyDb)) = table emptyDb"
    "pending (st_db (storeA acceptAll brokenFile (JsonlFile 1984) emptyDb)) = None"
    using A f p bad by simp_all
  moreover have "st_raised (storeB acceptAll brokenFile (JsonlFile 1984) emptyDb) \<noteq> None"
    "table (st_db (storeB acceptAll brokenFile (JsonlFile 1984) emptyDb)) = table emptyDb"
    using B f p bad by simp_all
  moreover have "pending (st_db (storeA acceptAll literalFile (JsonlFile 1984) emptyDb)) = None"
    using C g p by simp
  ultimately show ?thesis
    using f p by (simp add: storeA_brokenFile storeB_brokenFile storeA_literalFile
        readLines_broken parse_oops emptyDb_simps)
qed

text \<open>
  C3, for version A. When \<^verbatim>\<open>store\<close> of version A commits a record file, the table has
  gained one row per line, and the row of every line whose parsed array has 1984
  first, 7 second and \<^verbatim>\<open>"Remember The Nights"\<close> fifth has \<^verbatim>\<open>87\<close> as its third
  parameter, whatever the line held there.
\<close>

theorem correction_1984_7:
  assumes "JSON_parse line = Inr values"
    and "at values 0 = Num 1984" and "at values 1 = Num 7"
    and "at values 4 = Str (str ''Remember The Nights'')"
  shows "map prepareValue (correctionA values) ! 2 = Some (str ''87'')
    \<and> (fsys jsonlFileName = Some content \<and> pending d = None
         \<and> st_raised (storeA accepts fsys jsonlFileName d) = None
         \<and> k < length (readLines [] content) \<and> readLines [] content ! k = line \<longrightarrow>
           length (table (st_db (storeA accepts fsys jsonlFileName d))) =
             length (table d) + length (readLines [] content)
         \<and> table (st_db (storeA accepts fsys jsonlFileName d)) ! (length (table d) + k) =
             map prepareValue (correctionA values))"
proof -
  have l: "4 < length values" using assms(4) by (auto simp: at_def split: if_splits)
  then have "correctionA values = values[2 := Str (str ''87'')]"
    using assms(2,3,4) by (simp add: correctionA_def setAt_def)
  with l have 1: "map prepareValue (correctionA values) ! 2 = Some (str ''87'')" by simp
  have 2: "length (table (st_db (storeA accepts fsys jsonlFileName d))) =
             length (table d) + length (readLines [] content)
         \<and> table (st_db (storeA accepts fsys jsonlFileName d)) ! (length (table d) + k) =
             map prepareValue (correctionA values)"
    if h: "fsys jsonlFileName = Some content" "pending d = None"
      "st_raised (storeA accepts fsys jsonlFileName d) = None"
      "k < length (readLines [] content)" "readLines [] content ! k = line"
  proof -
    from storeWith_all_or_nothing [where store = storeA and correction = correctionA
        and fsys = fsys and jsonlFileName = jsonlFileName and content = content and d = d
        and accepts = accepts] h(1,2,3)
    obtain rows where rows: "map (rowOf correctionA) (readLines [] content) = map Some rows"
      "table (st_db (storeA accepts fsys jsonlFileName d)) = table d @ rows"
      by (auto simp: storeA_def)
    from rows(1) have len: "length rows = length (readLines [] content)"
      by (metis length_map)
    from rows(1) have "map (rowOf correctionA) (readLines [] content) ! k = map Some rows ! k"
      by simp
    then have "rowOf correctionA (readLines [] content ! k) = Some (rows ! k)"
      using h(4) len by simp
    then have rk: "rows ! k = map prepareValue (correctionA values)"
      using assms(1) h(5) by (simp add: rowOf_def)
    show ?thesis using rows(2) len rk h(4) by (simp add: nth_append)
  qed
  from 1 2 show ?thesis by blast
qed

theorem correction_1984_7_witness:
  "literalFile (JsonlFile 1984) = Some (literalContent) \<and> pending emptyDb = None
   \<and> st_raised (storeA acceptAll literalFile (JsonlFile 1984) emptyDb) = None
   \<and> readLines [] (literalContent) = [literalLine]
   \<and> JSON_parse literalLine =
       Inr [Num 1984, Num 7, Str (str ''99''), Str (str ''Some Artist''),
            Str (str ''Remember The Nights'')]
   \<and> table (st_db (storeA acceptAll literalFile (JsonlFile 1984) emptyDb)) ! 0 ! 2 =
       Some (str ''87'')"
proof -
  have g: "literalFile (JsonlFile 1984) = Some (literalContent)"
    by (simp add: literalFile_def)
  have p: "pending emptyDb = None" by (simp add: emptyDb_simps)
  have r: "st_raised (storeA acceptAll literalFile (JsonlFile 1984) emptyDb) = None"
    by (simp add: storeA_literalFile)
  have k: "0 < length (readLines [] (literalContent))" by (simp add: readLines_literal)
  have v: "JSON_parse (readLines [] (literalContent) ! 0) =
      Inr [Num 1984, Num 7, Str (str ''99''), Str (str ''Some Artist''),
           Str (str ''Remember The Nights'')]"
    by (simp add: readLines_literal parse_literalLine)
  have c: "at [Num 1984, Num 7, Str (str ''99''), Str (str ''Some Artist''),
           Str (str ''Remember The Nights'')] 0 = Num 1984"
    "at [Num 1984, Num 7, Str (str ''99''), Str (str ''Some Artist''),
           Str (str ''Remember The Nights'')] 1 = Num 7"
    "at [Num 1984, Num 7, Str (str ''99''), Str (str ''Some Artist''),
           Str (str ''Remember The Nights'')] 4 = Str (str ''Remember The Nights'')"
    by (simp_all add: at_def)
  note T = correction_1984_7 [OF parse_literalLine c, of literalFile "JsonlFile 1984"
      literalContent emptyDb acceptAll 0]
  have "table (st_db (storeA acceptAll literalFile (JsonlFile 1984) emptyDb))
        ! (length (table emptyDb) + 0) ! 2 = Some (str ''87'')"
    using T g p r k by (simp add: readLines_literal)
  then show ?thesis
    using g p r by (simp add: readLines_literal parse_literalLine emptyDb_simps)
qed

text \<open>
  C3 fails for version B, whose \<^verbatim>\<open>store\<close> has no correction: the line of the
  specification is stored with position \<^verbatim>\<open>99\<close>.
\<close>

theorem correction_missing_in_B:
  "JSON_parse literalLine =
     Inr [Num 1984, Num 7, Str (str ''99''), Str (str ''Some Artist''),
          Str (str ''Remember The Nights'')]
   \<and> st_raised (storeB acceptAll literalFile (JsonlFile 1984) emptyDb) = None
   \<and> table (st_db (storeB acceptAll literalFile (JsonlFile 1984) emptyDb)) ! 0 ! 2 =
       Some (str ''99'')
   \<and> str ''99'' \<noteq> str ''87''"
  by (simp add: parse_literalLine storeB_literalFile) (simp add: str_def)


section \<open>Record file\<close>

lemma gregorianToWeek_1958_31: "gregorianToWeek (- 4170) = \<lparr>weekYear = 1958, weekNumber = 31, weekday = 6\<rparr>"
  by code_simp

lemma hd_pageMissingTitle:
  "hd (yielded (parseHtmlA pageMissingTitle)) =
     \<lparr>position = Num 1, artist = Undefined, title = Undefined\<rparr>"
proof -
  have len: "length pageMissingTitle = 100" using pageMissingTitle_runs by simp
  have A: "parseHtmlA pageMissingTitle = rowsLoopA 0 pageMissingTitle"
    by (simp add: parseHtmlA_def len)
  have r: "raised (rowsLoopA 0 pageMissingTitle) = None"
    using pageMissingTitle_runs by (simp add: A)
  have "yielded (rowsLoopA 0 pageMissingTitle) \<noteq> []"
    using pageMissingTitle_runs by (auto simp: A)
  then have "hd (yielded (rowsLoopA 0 pageMissingTitle)) = yielded (rowsLoopA 0 pageMissingTitle) ! 0"
    by (simp add: hd_conv_nth)
  also have "\<dots> = \<lparr>position = Num 1, artist = fieldOf (artistQuery (pageMissingTitle ! 0)),
      title = fieldOf (titleQuery (pageMissingTitle ! 0))\<rparr>"
    using pageMissingTitle_runs by (simp add: rowsLoopA_yielded [OF r] del: upt_Suc)
  also have "\<dots> = \<lparr>position = Num 1, artist = Undefined, title = Undefined\<rparr>"
    by (simp add: pageMissingTitle_def sampleRow_def fieldOf_def)
  finally show ?thesis by (simp add: A)
qed

text \<open>
  C7 at a failing input. The first row of \<open>pageMissingTitle\<close> has no title and no
  artist element, version A yields its entry with both fields \<^verbatim>\<open>undefined\<close>, and
  \<^verbatim>\<open>ingest\<close> writes them as \<^verbatim>\<open>null\<close>: the tuple read back is not the tuple written.
  (\<open>entry_roundtrip\<close> above is the round trip for entries without an undefined field.)
\<close>

theorem roundtrip_breaks_on_undefined:
  "titleQuery (hd pageMissingTitle) = None \<and> artistQuery (hd pageMissingTitle) = None
   \<and> title (hd (yielded (parseHtmlA pageMissingTitle))) = Undefined
   \<and> entryValues (- 4170) (hd (yielded (parseHtmlA pageMissingTitle))) =
       [Num 1958, Num 31, Num 1, Undefined, Undefined]
   \<and> entryLine (- 4170) (hd (yielded (parseHtmlA pageMissingTitle))) =
       str ''[1958,31,1,null,null]'' @ [10]
   \<and> map JSON_parse (readLines [] (entryLine (- 4170) (hd (yielded (parseHtmlA pageMissingTitle))))) =
       [Inr [Num 1958, Num 31, Num 1, Null, Null]]"
proof -
  have v: "entryValues (- 4170)
        \<lparr>position = Num 1, artist = Undefined, title = Undefined\<rparr> =
       [Num 1958, Num 31, Num 1, Undefined, Undefined]"
    by (simp add: entryValues_def gregorianToWeek_1958_31)
  have l: "JSON_stringify [Num 1958, Num 31, Num 1, Undefined, Undefined] =
      str ''[1958,31,1,null,null]''"
    by (simp add: JSON_stringify_def quoteJSONString_def quoteUnit_def isLeadSurrogate_def
        isTrailSurrogate_def numberToString_def digits.simps str_def)
  have r: "map JSON_parse (readLines [] (str ''[1958,31,1,null,null]'' @ [10])) =
       [Inr [Num 1958, Num 31, Num 1, Null, Null]]"
    by code_simp
  show ?thesis
    by (simp add: entryLine_def v l r hd_pageMissingTitle) (simp add: pageMissingTitle_def)
qed


section \<open>Orchestrator: resuming and failing\<close>

lemma storeIn_keeps:
  "disk (snd (storeIn store env p w)) = disk w
   \<and> requested (snd (storeIn store env p w)) = requested w
   \<and> parsed (snd (storeIn store env p w)) = parsed w"
  by (simp add: storeIn_def Let_def)

lemma appendFile_keeps: "fsys p \<noteq> None \<Longrightarrow> appendFile q data fsys p \<noteq> None"
  by (simp add: appendFile_def)

lemma download_keeps: "fsys p \<noteq> None \<Longrightarrow> dl_files (download resp q fsys) p \<noteq> None"
  by (simp add: download_def)

lemma ingestWith_keeps:
  assumes "disk w p \<noteq> None"
  shows "disk (snd (ingestWith parseHtml env date jsonl w)) p \<noteq> None"
proof -
  define w1 where "w1 = (if disk w (HtmlFile date) = None then
      (let r = download (respond env date) (HtmlFile date) (disk w)
       in w\<lparr>disk := dl_files r, requested := requested w @ [date],
            console := console w @ dl_logged r\<rparr>)
      else w)"
  define w2 where "w2 = w1\<lparr>disk := appendFile jsonl [] (disk w1),
      parsed := parsed w1 @ [HtmlFile date]\<rparr>"
  have 1: "disk w1 p \<noteq> None"
    using assms download_keeps [of "disk w" p "respond env date" "HtmlFile date"]
    by (auto simp: w1_def Let_def)
  then have 2: "disk w2 p \<noteq> None"
    using appendFile_keeps [of "disk w1" p jsonl "[]"] by (simp add: w2_def)
  have "ingestWith parseHtml env date jsonl w =
      (case disk w2 (HtmlFile date) of
         None \<Rightarrow> (Some NoSuchFile, w2)
       | Some html \<Rightarrow>
           (let r = parseHtml (jsdom env html)
            in (raised r,
                w2\<lparr>disk := appendFile jsonl
                       (concat (map (entryLine date) (yielded r))) (disk w2),
                   console := console w2 @ logged r\<rparr>)))"
    unfolding ingestWith_def w2_def w1_def Let_def by (rule refl)
  then have "disk (snd (ingestWith parseHtml env date jsonl w)) = disk w2
      \<or> (\<exists>data. disk (snd (ingestWith parseHtml env date jsonl w)) =
            appendFile jsonl data (disk w2))"
    by (cases "disk w2 (HtmlFile date)") (auto simp: Let_def)
  then show ?thesis
    using 2 appendFile_keeps [of "disk w2" p jsonl] by auto
qed

lemma ingestAll_keeps:
  "disk w p \<noteq> None \<Longrightarrow> disk (snd (ingestAll parseHtml env jsonl dates w)) p \<noteq> None"
proof (induction dates arbitrary: w)
  case Nil
  then show ?case by simp
next
  case (Cons date dates)
  obtain r w' where i: "ingestWith parseHtml env date jsonl w = (r, w')"
    by (cases "ingestWith parseHtml env date jsonl w") auto
  with Cons.prems have k: "disk w' p \<noteq> None"
    using ingestWith_keeps [of w p parseHtml env date jsonl] by simp
  show ?case
  proof (cases r)
    case None
    with i Cons.IH [OF k] show ?thesis by simp
  next
    case (Some e)
    with i k show ?thesis by simp
  qed
qed

lemma yearA_unfold:
  assumes "weekEndingDatesA year = Some dates"
    and "(if disk w (JsonlFile year) = None
          then ingestAll parseHtmlA env (JsonlFile year) dates w else (None, w)) = (r, w1)"
    and "storeIn storeA env (JsonlFile year) w1 = (s, w2)"
  shows "yearA env year w =
     (case r of
        Some e \<Rightarrow> (Threw e, w1)
      | None \<Rightarrow> (case s of Some err \<Rightarrow> (Threw err, w2) | None \<Rightarrow> (Continue, w2)))"
  unfolding yearA_def Let_def
  by (simp only: assms option.case prod.case split: option.split)

lemma yearA_keeps:
  assumes k: "disk w p \<noteq> None"
  shows "disk (snd (yearA env year w)) p \<noteq> None"
proof (cases "weekEndingDatesA year")
  case None
  with k show ?thesis by (simp add: yearA_def)
next
  case (Some dates)
  obtain r w1 where i: "(if disk w (JsonlFile year) = None
      then ingestAll parseHtmlA env (JsonlFile year) dates w else (None, w)) = (r, w1)"
    by (metis surj_pair)
  obtain s w2 where st: "storeIn storeA env (JsonlFile year) w1 = (s, w2)"
    by (metis surj_pair)
  have k1: "disk w1 p \<noteq> None"
  proof (cases "disk w (JsonlFile year) = None")
    case True
    with i have "w1 = snd (ingestAll parseHtmlA env (JsonlFile year) dates w)" by simp
    then show ?thesis using ingestAll_keeps [OF k] by simp
  next
    case False
    with i k show ?thesis by simp
  qed
  have "disk w2 = disk w1"
    using storeIn_keeps [of storeA env "JsonlFile year" w1] st by simp
  with k1 have k2: "disk w2 p \<noteq> None" by simp
  show ?thesis
    unfolding yearA_unfold [OF Some i st] using k1 k2
    by (cases r; cases s) simp_all
qed

lemma yearA_existing:
  assumes "disk w (JsonlFile year) \<noteq> None"
  shows "requested (snd (yearA env year w)) = requested w
    \<and> parsed (snd (yearA env year w)) = parsed w
    \<and> disk (snd (yearA env year w)) = disk w"
proof (cases "weekEndingDatesA year")
  case None
  then show ?thesis by (simp add: yearA_def)
next
  case (Some dates)
  show ?thesis
    using assms Some storeIn_keeps [of storeA env "JsonlFile year" w]
    by (auto simp: yearA_def Let_def split: option.splits prod.splits)
qed

lemma mainB_existing:
  assumes "disk w (JsonlFile year) \<noteq> None"
  shows "requested (snd (mainB env year w)) = requested w
    \<and> parsed (snd (mainB env year w)) = parsed w
    \<and> disk (snd (mainB env year w)) = disk w"
proof (cases "weekEndingDatesB year")
  case None
  then show ?thesis by (simp add: mainB_def)
next
  case (Some dates)
  show ?thesis
    using assms Some storeIn_keeps [of storeB env "JsonlFile year" w]
    by (auto simp: mainB_def Let_def split: option.splits prod.splits)
qed

lemma yearsLoopA_existing:
  "(\<And>y. year \<le> y \<Longrightarrow> y \<le> yearEnd \<Longrightarrow> disk w (JsonlFile y) \<noteq> None) \<Longrightarrow>
   requested (snd (yearsLoopA env year yearEnd w)) = requested w
   \<and> parsed (snd (yearsLoopA env year yearEnd w)) = parsed w
   \<and> disk (snd (yearsLoopA env year yearEnd w)) = disk w"
proof (induction env year yearEnd w rule: yearsLoopA.induct)
  case (1 env year yearEnd w)
  show ?case
  proof (cases "year \<le> yearEnd")
    case False
    then show ?thesis by (subst (1 2 3) yearsLoopA.simps) simp
  next
    case True
    obtain out w' where y: "yearA env year w = (out, w')" by (cases "yearA env year w") auto
    have ex: "disk w (JsonlFile year) \<noteq> None" using "1.prems" True by simp
    from yearA_existing [OF ex, of env] y
    have keep: "requested w' = requested w" "parsed w' = parsed w" "disk w' = disk w"
      by simp_all
    show ?thesis
    proof (cases "out = Continue")
      case False
      then have "yearsLoopA env year yearEnd w = (out, w')"
        using True y by (subst yearsLoopA.simps) (cases out; simp)
      with keep show ?thesis by simp
    next
      case c: True
      have "yearsLoopA env year yearEnd w = yearsLoopA env (year + 1) yearEnd w'"
        using True y c by (subst yearsLoopA.simps) simp
      moreover have "requested (snd (yearsLoopA env (year + 1) yearEnd w')) = requested w'
        \<and> parsed (snd (yearsLoopA env (year + 1) yearEnd w')) = parsed w'
        \<and> disk (snd (yearsLoopA env (year + 1) yearEnd w')) = disk w'"
      proof (rule "1.IH" [OF True y [symmetric] c])
        fix z assume "year + 1 \<le> z" "z \<le> yearEnd"
        then show "disk w' (JsonlFile z) \<noteq> None" using "1.prems" [of z] keep(3) by simp
      qed
      ultimately show ?thesis using keep by simp
    qed
  qed
qed

lemma literalWorld_file: "disk literalWorld (JsonlFile 1984) \<noteq> None"
  by (simp add: literalWorld_def literalFile_def)

text \<open>
  C6. When the record file of a year exists, the turn of the year loop for that
  year (version A) and the run for that year (version B) send no request and give
  no page to the parser, and leave the files as they are. A turn of the loop for
  any year removes no record file, so a file that exists when the run starts still
  exists when its year is reached. When the record files of all years of the range
  exist, the whole run of version A sends no request and parses no page.
\<close>

theorem existing_record_file_skips_ingestion:
  assumes "disk w (JsonlFile year) \<noteq> None"
  shows "requested (snd (yearA env year w)) = requested w
    \<and> parsed (snd (yearA env year w)) = parsed w
    \<and> disk (snd (yearA env year w)) = disk w
    \<and> requested (snd (mainB env year w)) = requested w
    \<and> parsed (snd (mainB env year w)) = parsed w
    \<and> disk (snd (mainB env year w)) = disk w
    \<and> disk (snd (yearA env year' w)) (JsonlFile year) \<noteq> None
    \<and> ((\<forall>y. yearStart \<le> y \<and> y \<le> yearEnd \<longrightarrow> disk w (JsonlFile y) \<noteq> None) \<longrightarrow>
          requested (snd (mainA env yearStart yearEnd w)) = requested w
        \<and> parsed (snd (mainA env yearStart yearEnd w)) = parsed w)"
proof -
  have all: "requested (snd (mainA env yearStart yearEnd w)) = requested w
        \<and> parsed (snd (mainA env yearStart yearEnd w)) = parsed w"
    if "\<forall>y. yearStart \<le> y \<and> y \<le> yearEnd \<longrightarrow> disk w (JsonlFile y) \<noteq> None"
    using yearsLoopA_existing [of yearStart yearEnd w env] that by (simp add: mainA_def)
  show ?thesis
    using yearA_existing [OF assms, of env] mainB_existing [OF assms, of env]
      yearA_keeps [OF assms, of env year'] all
    by blast
qed

theorem existing_record_file_skips_ingestion_witness:
  "disk literalWorld (JsonlFile 1984) \<noteq> None
   \<and> requested (snd (yearA offlineEnv 1984 literalWorld)) = []
   \<and> parsed (snd (yearA offlineEnv 1984 literalWorld)) = []
   \<and> requested (snd (mainB offlineEnv 1984 literalWorld)) = []
   \<and> parsed (snd (mainB offlineEnv 1984 literalWorld)) = []
   \<and> requested (snd (mainA offlineEnv 1984 1984 literalWorld)) = []
   \<and> parsed (snd (mainA offlineEnv 1984 1984 literalWorld)) = []"
proof -
  have one: "\<forall>y. (1984::int) \<le> y \<and> y \<le> 1984 \<longrightarrow> disk literalWorld (JsonlFile y) \<noteq> None"
  proof (intro allI impI)
    fix y :: int assume "1984 \<le> y \<and> y \<le> 1984"
    then have "y = 1984" by linarith
    then show "disk literalWorld (JsonlFile y) \<noteq> None" using literalWorld_file by simp
  qed
  have r: "requested literalWorld = []" "parsed literalWorld = []"
    by (simp_all add: literalWorld_def)
  show ?thesis
    using existing_record_file_skips_ingestion
      [OF literalWorld_file, of offlineEnv 1984 1984 1984] one literalWorld_file r
    by simp
qed

lemma weekEndingDatesA_Some: "1000 \<le> y \<Longrightarrow> y \<le> 9998 \<Longrightarrow> weekEndingDatesA y \<noteq> None"
  using weekEndingDatesA_eq [of y] by simp

lemma yearA_store_throws:
  assumes "1000 \<le> year" "year \<le> 9998" "disk w (JsonlFile year) \<noteq> None"
    and "st_raised (storeA (dbAccepts env) (disk w) (JsonlFile year) (db w)) = Some e"
  shows "yearA env year w =
     (Threw e,
      w\<lparr>db := st_db (storeA (dbAccepts env) (disk w) (JsonlFile year) (db w)),
        console := console w
          @ st_logged (storeA (dbAccepts env) (disk w) (JsonlFile year) (db w))\<rparr>)"
proof -
  obtain dates where d: "weekEndingDatesA year = Some dates"
    using weekEndingDatesA_Some [OF assms(1,2)] by auto
  have i: "(if disk w (JsonlFile year) = None
      then ingestAll parseHtmlA env (JsonlFile year) dates w else (None, w)) = (None, w)"
    using assms(3) by auto
  have s: "storeIn storeA env (JsonlFile year) w =
      (Some e, w\<lparr>db := st_db (storeA (dbAccepts env) (disk w) (JsonlFile year) (db w)),
        console := console w
          @ st_logged (storeA (dbAccepts env) (disk w) (JsonlFile year) (db w))\<rparr>)"
    using assms(4) by (simp add: storeIn_def Let_def)
  show ?thesis unfolding yearA_unfold [OF d i s] by simp
qed

text \<open>
  C9 at a failing input. The record file of 1984 exists and its second line is no
  JSON, so \<^verbatim>\<open>store\<close> raises. Version A, run for 1984 to 1985, ends with that error
  at once: the record file is still there, no request has been sent, no page parsed,
  and 1985 is not reached.
\<close>

theorem load_failure_halts:
  "disk brokenWorld (JsonlFile 1984) = Some brokenContent
   \<and> st_raised (storeA acceptAll brokenFile (JsonlFile 1984) emptyDb) = Some SyntaxError
   \<and> mainA offlineEnv 1984 1985 brokenWorld = (Threw SyntaxError, brokenWorld)"
proof -
  have f: "disk brokenWorld (JsonlFile 1984) \<noteq> None"
    by (simp add: brokenWorld_def brokenFile_def)
  have st: "storeA (dbAccepts offlineEnv) (disk brokenWorld) (JsonlFile 1984) (db brokenWorld) =
      \<lparr>st_raised = Some SyntaxError, st_logged = [], st_db = emptyDb\<rparr>"
    using storeA_brokenFile by (simp add: offlineEnv_def brokenWorld_def)
  have "yearA offlineEnv 1984 brokenWorld = (Threw SyntaxError, brokenWorld)"
    using yearA_store_throws [of 1984 brokenWorld offlineEnv SyntaxError] f
    by (simp add: st) (simp add: brokenWorld_def)
  then have "yearsLoopA offlineEnv 1984 1985 brokenWorld = (Threw SyntaxError, brokenWorld)"
    by (subst yearsLoopA.simps) simp
  then show ?thesis
    by (simp add: mainA_def storeA_brokenFile) (simp add: brokenWorld_def brokenFile_def)
qed

end
